theory Spec2Isabelle
  imports Main "HOL-Library.AList" "HOL-Library.Sublist"
begin

section \<open>Values, JSON texts and the browser state\<close>

text \<open>
  The file \<^verbatim>\<open>src/lib/session-storage/session-storage.model.ts\<close> holds two
  implementations of the class \<^verbatim>\<open>SessionStorage\<close>. The first (lines 1 to 368) has
  \<^verbatim>\<open>handlePermanentStorage\<close> and reads the orchestrator from a window-scoped object;
  its operations carry the suffix \<open>1\<close> here. The second (lines 369 to 766) has the
  lifecycle \<^verbatim>\<open>init\<close>, \<^verbatim>\<open>restore\<close>, \<^verbatim>\<open>exit\<close> with an orchestrator argument; its operations
  carry the suffix \<open>2\<close>.

  What \<^verbatim>\<open>JSON.parse\<close> returns is a JSON value. Numbers are integers here: the engine
  never computes with them.
\<close>

datatype json =
    JNull
  | JBool bool
  | JNum int
  | JStr string
  | JArr "json list"
  | JObj "(string \<times> json) list"

text \<open>
  A run-time value handed to the engine is \<^verbatim>\<open>undefined\<close>, JSON data, or a value that
  \<^verbatim>\<open>JSON.stringify\<close> rejects with a \<^verbatim>\<open>TypeError\<close> (an object with a cycle, a BigInt).
\<close>

datatype jsval = Undefined | Value json | NotSerializable

datatype error = SyntaxError | TypeError

text \<open>
  \<^verbatim>\<open>JSON.parse\<close> and \<^verbatim>\<open>JSON.stringify\<close> belong to the platform, not to the repository:
  they are parameters of the model. \<open>parse_text\<close> is \<open>None\<close> where \<^verbatim>\<open>JSON.parse\<close> throws;
  \<open>text_of\<close> is the text \<^verbatim>\<open>JSON.stringify\<close> produces for JSON data.
\<close>

record json_api =
  parse_text :: "string \<Rightarrow> json option"
  text_of :: "json \<Rightarrow> string"

definition JSON_parse :: "json_api \<Rightarrow> string \<Rightarrow> error + json" where
  "JSON_parse J s = (case parse_text J s of None \<Rightarrow> Inl SyntaxError | Some j \<Rightarrow> Inr j)"

text \<open>
  Every \<^verbatim>\<open>JSON.stringify(value)\<close> of the source is the second argument of a \<^verbatim>\<open>setItem\<close>,
  which converts it to a string: \<^verbatim>\<open>JSON.stringify(undefined)\<close> is \<^verbatim>\<open>undefined\<close> and is
  stored as the nine characters \<^verbatim>\<open>undefined\<close>.
\<close>

definition JSON_stringify :: "json_api \<Rightarrow> jsval \<Rightarrow> error + string" where
  "JSON_stringify J v =
     (case v of
        Undefined \<Rightarrow> Inr ''undefined''
      | Value j \<Rightarrow> Inr (text_of J j)
      | NotSerializable \<Rightarrow> Inl TypeError)"

text \<open>
  \<^verbatim>\<open>JSON.stringify(idoData)\<close> of an object assembled field by field: a field holding
  \<^verbatim>\<open>undefined\<close> is left out, a field that cannot be encoded makes the call throw.
\<close>

fun json_fields :: "(string \<times> jsval) list \<Rightarrow> (string \<times> json) list" where
  "json_fields [] = []"
| "json_fields ((k, Value j) # fs) = (k, j) # json_fields fs"
| "json_fields ((k, _) # fs) = json_fields fs"

definition stringify_object :: "json_api \<Rightarrow> (string \<times> jsval) list \<Rightarrow> error + string" where
  "stringify_object J fs =
     (if NotSerializable \<in> snd ` set fs then Inl TypeError
      else Inr (text_of J (JObj (json_fields fs))))"

text \<open>
  The property read \<^verbatim>\<open>idoData[idoProperty]\<close> on a parsed value: it throws on \<^verbatim>\<open>null\<close>,
  finds own properties of objects, the length and the elements of arrays and strings,
  and is \<^verbatim>\<open>undefined\<close> otherwise. Properties inherited from the prototypes
  (\<^verbatim>\<open>toString\<close>, \<^verbatim>\<open>constructor\<close>) are not modelled.
\<close>

definition is_digit :: "char \<Rightarrow> bool" where
  "is_digit c = (48 \<le> (of_char c :: nat) \<and> (of_char c :: nat) \<le> 57)"

definition array_index :: "string \<Rightarrow> nat option" where
  "array_index p =
     (if p = ''0'' then Some 0
      else if p \<noteq> [] \<and> list_all is_digit p \<and> hd p \<noteq> CHR ''0''
      then Some (foldl (\<lambda>n c. 10 * n + (of_char c - 48)) 0 p)
      else None)"

fun get_property :: "json \<Rightarrow> string \<Rightarrow> error + jsval" where
  "get_property JNull p = Inl TypeError"
| "get_property (JObj fs) p =
     (case map_of fs p of None \<Rightarrow> Inr Undefined | Some j \<Rightarrow> Inr (Value j))"
| "get_property (JArr xs) p =
     (if p = ''length'' then Inr (Value (JNum (int (length xs))))
      else case array_index p of
             None \<Rightarrow> Inr Undefined
           | Some i \<Rightarrow> if i < length xs then Inr (Value (xs ! i)) else Inr Undefined)"
| "get_property (JStr s) p =
     (if p = ''length'' then Inr (Value (JNum (int (length s))))
      else case array_index p of
             None \<Rightarrow> Inr Undefined
           | Some i \<Rightarrow> if i < length s then Inr (Value (JStr [s ! i])) else Inr Undefined)"
| "get_property _ p = Inr Undefined"

text \<open>
  A property of the store object is a signal or a plain value. A signal is what the
  source probes for: a value whose \<^verbatim>\<open>typeof\<close> is \<^verbatim>\<open>'object'\<close> and that has a \<^verbatim>\<open>set\<close>
  function; it holds the value last given to \<^verbatim>\<open>set\<close>. A key that is not in the list is
  a property that does not exist.
\<close>

datatype cell = Signal jsval | Plain jsval

fun read_cell :: "cell \<Rightarrow> jsval" where
  "read_cell (Signal v) = v"
| "read_cell (Plain v) = v"

definition container_get :: "(string \<times> cell) list \<Rightarrow> string \<Rightarrow> jsval" where
  "container_get st k = (case map_of st k of None \<Rightarrow> Undefined | Some c \<Rightarrow> read_cell c)"

text \<open>
  The branch taken all over the source: a signal is written through its \<^verbatim>\<open>set\<close>, any
  other property is replaced by the value.
\<close>

definition assign :: "(string \<times> cell) list \<Rightarrow> string \<Rightarrow> jsval \<Rightarrow> (string \<times> cell) list" where
  "assign st k v =
     (case map_of st k of
        Some (Signal _) \<Rightarrow> AList.update k (Signal v) st
      | _ \<Rightarrow> AList.update k (Plain v) st)"

text \<open>
  The value \<^verbatim>\<open>init\<close> stores for a key, after the test
  \<^verbatim>\<open>storeProperty !== undefined && storeProperty !== null\<close>: \<open>Inr None\<close> when the test
  fails, the property itself when it is a plain value. For a signal the source
  evaluates \<^verbatim>\<open>storeProperty()\<close>. The probe accepts a property as a signal only when its
  \<^verbatim>\<open>typeof\<close> is \<^verbatim>\<open>'object'\<close>, and an object of that kind cannot be called: the call throws
  a \<^verbatim>\<open>TypeError\<close>, and it stands outside every \<^verbatim>\<open>try\<close> of \<^verbatim>\<open>init\<close>.
\<close>

definition valueToStore :: "(string \<times> cell) list \<Rightarrow> string \<Rightarrow> error + jsval option" where
  "valueToStore st k =
     (case map_of st k of
        None \<Rightarrow> Inr None
      | Some (Signal v) \<Rightarrow> Inl TypeError
      | Some (Plain v) \<Rightarrow> if v = Undefined \<or> v = Value JNull then Inr None else Inr (Some v))"

text \<open>\<^verbatim>\<open>forEach\<close> with a body that may throw: the loop ends at the first exception.\<close>

fun forEach :: "('a \<Rightarrow> 's \<Rightarrow> error + 's) \<Rightarrow> 'a list \<Rightarrow> 's \<Rightarrow> error + 's" where
  "forEach f [] w = Inr w"
| "forEach f (x # xs) w = (case f x w of Inl e \<Rightarrow> Inl e | Inr w' \<Rightarrow> forEach f xs w')"

text \<open>The messages written to the console, one constructor for each call in the source.\<close>

datatype diag =
    Get_ErrorParsing
  | Exit_Keeping string
  | Exit_Removed string
  | Exit_PreparedIdo string string
  | Exit_ErrorStoringIdo
  | Init_NoPermanentConfig
  | Init_ErrorLocalStorage string
  | Init_ErrorSessionStorage string
  | Init_Skipping string
  | Init_ErrorStoringIdo
  | Restore_NoPermanentConfig
  | Restore_ErrorLocalStorage string
  | Restore_ErrorSessionStorage string
  | Restore_ErrorIdo
  | Failed_sessionStorage string
  | Restored_sessionStorage string
  | Failed_localStorage string
  | Restored_localStorage string
  | Restored_IDO string
  | Persisted_localStorage string
  | Transferred_IDO string string

text \<open>
  The two Web Storage areas keep their entries in insertion order; the store object
  and \<^verbatim>\<open>window.__ORCHESTRATOR_DATA__\<close> are objects with string keys. A storage area is
  read through \<^verbatim>\<open>getItem\<close> and listed with \<^verbatim>\<open>Object.keys\<close>; a key that is the name of a
  member of the Storage interface (\<^verbatim>\<open>length\<close>, \<^verbatim>\<open>getItem\<close>), which \<^verbatim>\<open>Object.keys\<close> would
  not list, is not modelled, nor is a write refused for lack of space.
\<close>

record world =
  store :: "(string \<times> cell) list"
  session_storage :: "(string \<times> string) list"
  local_storage :: "(string \<times> string) list"
  orchestrator_data :: "(string \<times> jsval) list"
  console :: "diag list"

record PermanentConfig =
  localStorage :: "string list option"
  sessionStorage :: "string list option"
  ido :: "(string \<times> string) list option"

record SessionStorage =
  KEY_PREFIX :: string
  permanent :: "PermanentConfig option"

definition getItem :: "(string \<times> string) list \<Rightarrow> string \<Rightarrow> string option" where
  "getItem area k = map_of area k"

definition setItem :: "(string \<times> string) list \<Rightarrow> string \<Rightarrow> string \<Rightarrow> (string \<times> string) list" where
  "setItem area k v = AList.update k v area"

definition removeItem :: "(string \<times> string) list \<Rightarrow> string \<Rightarrow> (string \<times> string) list" where
  "removeItem area k = AList.delete k area"

definition emit :: "diag \<Rightarrow> world \<Rightarrow> world" where
  "emit d w = w\<lparr>console := console w @ [d]\<rparr>"

text \<open>The defaults of \<^verbatim>\<open>const { localStorage = [], sessionStorage = [], ido = {} }\<close>.\<close>

definition localStorageKeys :: "PermanentConfig \<Rightarrow> string list" where
  "localStorageKeys cfg = (case localStorage cfg of None \<Rightarrow> [] | Some ks \<Rightarrow> ks)"

definition sessionStorageKeys :: "PermanentConfig \<Rightarrow> string list" where
  "sessionStorageKeys cfg = (case sessionStorage cfg of None \<Rightarrow> [] | Some ks \<Rightarrow> ks)"

definition idoEntries :: "PermanentConfig \<Rightarrow> (string \<times> string) list" where
  "idoEntries cfg = (case ido cfg of None \<Rightarrow> [] | Some m \<Rightarrow> m)"

text \<open>
  \<^verbatim>\<open>fullKey.replace(this.KEY_PREFIX, '')\<close> removes the first occurrence of the prefix,
  wherever it is.
\<close>

fun replace_first :: "string \<Rightarrow> string \<Rightarrow> string" where
  "replace_first pat [] = []"
| "replace_first pat (c # cs) =
     (if prefix pat (c # cs) then drop (length pat) (c # cs) else c # replace_first pat cs)"

text \<open>
  \<^verbatim>\<open>this.KEY_PREFIX.replace(/-$/, '').toLowerCase()\<close>; only the letters A to Z are
  lowered, a character being a byte here.
\<close>

definition toLowerCase :: "string \<Rightarrow> string" where
  "toLowerCase s =
     map (\<lambda>c. if 65 \<le> (of_char c :: nat) \<and> (of_char c :: nat) \<le> 90
              then char_of ((of_char c :: nat) + 32) else c) s"

definition featureName :: "SessionStorage \<Rightarrow> string" where
  "featureName E =
     toLowerCase (if KEY_PREFIX E \<noteq> [] \<and> last (KEY_PREFIX E) = CHR ''-''
                  then butlast (KEY_PREFIX E) else KEY_PREFIX E)"

definition orchestratorIdoKey :: "SessionStorage \<Rightarrow> SessionStorage \<Rightarrow> string" where
  "orchestratorIdoKey E orch = KEY_PREFIX orch @ featureName E @ ''Ido''"

section \<open>The second implementation (lines 369 to 766)\<close>

text \<open>
  \<^verbatim>\<open>set\<close>: in both branches the value is serialised, stored in sessionStorage under
  the prefixed key, and the property is written (through the signal or directly). A
  \<^verbatim>\<open>TypeError\<close> of \<^verbatim>\<open>JSON.stringify\<close> is not caught.
\<close>

definition set2 :: "json_api \<Rightarrow> SessionStorage \<Rightarrow> string \<Rightarrow> jsval \<Rightarrow> world \<Rightarrow> error + world" where
  "set2 J E key v w =
     (case JSON_stringify J v of
        Inl e \<Rightarrow> Inl e
      | Inr serializedValue \<Rightarrow>
          Inr (w\<lparr>store := assign (store w) key v,
                 session_storage :=
                   setItem (session_storage w) (KEY_PREFIX E @ key) serializedValue\<rparr>))"

text \<open>\<^verbatim>\<open>defaultValue ?? null\<close>; a default that is not passed is \<^verbatim>\<open>undefined\<close>.\<close>

definition default_or_null :: "jsval \<Rightarrow> jsval" where
  "default_or_null d = (if d = Undefined \<or> d = Value JNull then Value JNull else d)"

text \<open>\<^verbatim>\<open>get\<close> returns the value and the state it leaves behind.\<close>

definition get2 :: "json_api \<Rightarrow> SessionStorage \<Rightarrow> string \<Rightarrow> jsval \<Rightarrow> world \<Rightarrow> jsval \<times> world" where
  "get2 J E key defaultValue w =
     (case getItem (session_storage w) (KEY_PREFIX E @ key) of
        None \<Rightarrow> (default_or_null defaultValue, w)
      | Some item \<Rightarrow>
          if item = ''undefined'' then (default_or_null defaultValue, w)
          else (case JSON_parse J item of
                  Inl e \<Rightarrow> (default_or_null defaultValue, emit Get_ErrorParsing w)
                | Inr parsedValue \<Rightarrow>
                    (Value parsedValue,
                     w\<lparr>store := assign (store w) key (Value parsedValue)\<rparr>)))"

definition getAll_step ::
  "json_api \<Rightarrow> SessionStorage \<Rightarrow> string \<Rightarrow> (string \<times> jsval) list \<times> world
     \<Rightarrow> (string \<times> jsval) list \<times> world" where
  "getAll_step J E key rw =
     (let (v, w') = get2 J E key Undefined (snd rw)
      in (if v \<noteq> Value JNull then AList.update key v (fst rw) else fst rw, w'))"

definition getAll2 :: "json_api \<Rightarrow> SessionStorage \<Rightarrow> world \<Rightarrow> (string \<times> jsval) list \<times> world" where
  "getAll2 J E w = fold (getAll_step J E) (map fst (store w)) ([], w)"

definition removeAll2 :: "SessionStorage \<Rightarrow> world \<Rightarrow> world" where
  "removeAll2 E w =
     (let w1 = fold (\<lambda>key w'. if prefix (KEY_PREFIX E) key
                               then w'\<lparr>session_storage := removeItem (session_storage w') key\<rparr>
                               else w')
                    (map fst (session_storage w)) w
      in w1\<lparr>store := fold AList.delete (map fst (store w1)) (store w1)\<rparr>)"

text \<open>The body of \<^verbatim>\<open>allKeys.forEach\<close> in \<^verbatim>\<open>exit\<close>.\<close>

definition exit_key :: "SessionStorage \<Rightarrow> PermanentConfig \<Rightarrow> string \<Rightarrow> world \<Rightarrow> world" where
  "exit_key E cfg fullKey w =
     (let propertyKey = replace_first (KEY_PREFIX E) fullKey in
      if propertyKey \<in> set (localStorageKeys cfg) then
        (let w' = (case getItem (session_storage w) fullKey of
                     None \<Rightarrow> w
                   | Some v \<Rightarrow> w\<lparr>local_storage := setItem (local_storage w) fullKey v\<rparr>)
         in w'\<lparr>session_storage := removeItem (session_storage w') fullKey\<rparr>)
      else if propertyKey \<in> set (sessionStorageKeys cfg) then emit (Exit_Keeping propertyKey) w
      else emit (Exit_Removed propertyKey)
             (w\<lparr>session_storage := removeItem (session_storage w) fullKey\<rparr>))"

text \<open>The body of \<^verbatim>\<open>Object.entries(ido).forEach\<close> in \<^verbatim>\<open>exit\<close>: it reads through \<^verbatim>\<open>get\<close>.\<close>

definition exit_prepare ::
  "json_api \<Rightarrow> SessionStorage \<Rightarrow> string \<times> string \<Rightarrow> (string \<times> jsval) list \<times> world
     \<Rightarrow> (string \<times> jsval) list \<times> world" where
  "exit_prepare J E entry dw =
     (let (v, w') = get2 J E (fst entry) Undefined (snd dw)
      in if v \<noteq> Value JNull \<and> v \<noteq> Undefined
         then (AList.update (snd entry) v (fst dw), emit (Exit_PreparedIdo (snd entry) (fst entry)) w')
         else (fst dw, w'))"

text \<open>
  The end of both IDO transfers: nothing for an empty object, else the write of the
  encoded object into localStorage inside \<^verbatim>\<open>try\<close>, the \<^verbatim>\<open>catch\<close> writing to the console.
\<close>

definition store_ido ::
  "json_api \<Rightarrow> SessionStorage \<Rightarrow> SessionStorage \<Rightarrow> diag \<Rightarrow> (string \<times> jsval) list \<Rightarrow> world \<Rightarrow> world" where
  "store_ido J E orch d idoData w =
     (if idoData = [] then w
      else case stringify_object J idoData of
             Inl e \<Rightarrow> emit d w
           | Inr s \<Rightarrow> w\<lparr>local_storage := setItem (local_storage w) (orchestratorIdoKey E orch) s\<rparr>)"

definition exit_ido :: "json_api \<Rightarrow> SessionStorage \<Rightarrow> PermanentConfig \<Rightarrow> SessionStorage option \<Rightarrow> world \<Rightarrow> world" where
  "exit_ido J E cfg orchestratorStorage w =
     (case orchestratorStorage of
        None \<Rightarrow> w
      | Some orch \<Rightarrow>
          if idoEntries cfg = [] then w
          else (let (idoData, w') = fold (exit_prepare J E) (idoEntries cfg) ([], w)
                in store_ido J E orch Exit_ErrorStoringIdo idoData w'))"

definition exit_clear_store :: "PermanentConfig \<Rightarrow> world \<Rightarrow> world" where
  "exit_clear_store cfg w =
     w\<lparr>store := fold (\<lambda>key st. if key \<notin> set (localStorageKeys cfg) \<and> key \<notin> set (sessionStorageKeys cfg)
                                then AList.delete key st else st)
                     (map fst (store w)) (store w)\<rparr>"

definition exit2 :: "json_api \<Rightarrow> SessionStorage \<Rightarrow> SessionStorage option \<Rightarrow> world \<Rightarrow> error + world" where
  "exit2 J E orchestratorStorage w =
     (case permanent E of
        None \<Rightarrow> Inr (removeAll2 E w)
      | Some cfg \<Rightarrow>
          (let allKeys = filter (prefix (KEY_PREFIX E)) (map fst (session_storage w));
               w1 = fold (exit_key E cfg) allKeys w;
               w2 = exit_ido J E cfg orchestratorStorage w1
           in Inr (exit_clear_store cfg w2)))"

text \<open>
  \<^verbatim>\<open>init\<close>: every \<^verbatim>\<open>JSON.stringify\<close> is inside a \<^verbatim>\<open>try\<close> whose \<^verbatim>\<open>catch\<close> writes to the
  console. The read of the property comes before the \<^verbatim>\<open>try\<close>: its exception ends the
  loop and \<^verbatim>\<open>init\<close>.
\<close>

definition init_local :: "json_api \<Rightarrow> SessionStorage \<Rightarrow> string \<Rightarrow> world \<Rightarrow> error + world" where
  "init_local J E key w =
     (case valueToStore (store w) key of
        Inl e \<Rightarrow> Inl e
      | Inr None \<Rightarrow> Inr w
      | Inr (Some v) \<Rightarrow>
          (case JSON_stringify J v of
             Inl e \<Rightarrow> Inr (emit (Init_ErrorLocalStorage key) w)
           | Inr s \<Rightarrow>
               Inr (w\<lparr>local_storage := setItem (local_storage w) (KEY_PREFIX E @ key) s\<rparr>)))"

definition init_session :: "json_api \<Rightarrow> SessionStorage \<Rightarrow> string \<Rightarrow> world \<Rightarrow> error + world" where
  "init_session J E key w =
     (case valueToStore (store w) key of
        Inl e \<Rightarrow> Inl e
      | Inr None \<Rightarrow> Inr (emit (Init_Skipping key) w)
      | Inr (Some v) \<Rightarrow>
          (case JSON_stringify J v of
             Inl e \<Rightarrow> Inr (emit (Init_ErrorSessionStorage key) w)
           | Inr s \<Rightarrow>
               Inr (w\<lparr>session_storage := setItem (session_storage w) (KEY_PREFIX E @ key) s\<rparr>)))"

definition init_prepare ::
  "world \<Rightarrow> string \<times> string \<Rightarrow> (string \<times> jsval) list \<Rightarrow> error + (string \<times> jsval) list" where
  "init_prepare w entry idoData =
     (case valueToStore (store w) (fst entry) of
        Inl e \<Rightarrow> Inl e
      | Inr None \<Rightarrow> Inr idoData
      | Inr (Some v) \<Rightarrow> Inr (AList.update (snd entry) v idoData))"

definition init_ido ::
  "json_api \<Rightarrow> SessionStorage \<Rightarrow> PermanentConfig \<Rightarrow> SessionStorage option \<Rightarrow> world \<Rightarrow> error + world" where
  "init_ido J E cfg orchestratorStorage w =
     (case orchestratorStorage of
        None \<Rightarrow> Inr w
      | Some orch \<Rightarrow>
          if idoEntries cfg = [] then Inr w
          else (case forEach (init_prepare w) (idoEntries cfg) [] of
                  Inl e \<Rightarrow> Inl e
                | Inr idoData \<Rightarrow> Inr (store_ido J E orch Init_ErrorStoringIdo idoData w)))"

definition init2 :: "json_api \<Rightarrow> SessionStorage \<Rightarrow> SessionStorage option \<Rightarrow> world \<Rightarrow> error + world" where
  "init2 J E orchestratorStorage w =
     (case permanent E of
        None \<Rightarrow> Inr (emit Init_NoPermanentConfig w)
      | Some cfg \<Rightarrow>
          (case forEach (init_local J E) (localStorageKeys cfg) w of
             Inl e \<Rightarrow> Inl e
           | Inr w1 \<Rightarrow>
               (case forEach (init_session J E) (sessionStorageKeys cfg) w1 of
                  Inl e \<Rightarrow> Inl e
                | Inr w2 \<Rightarrow> init_ido J E cfg orchestratorStorage w2)))"

text \<open>
  \<^verbatim>\<open>restore\<close>. The localStorage pass copies the stored text into sessionStorage before
  it parses it; both passes assign the property directly.
\<close>

definition restore_local :: "json_api \<Rightarrow> SessionStorage \<Rightarrow> string \<Rightarrow> world \<Rightarrow> world" where
  "restore_local J E key w =
     (let fullKey = KEY_PREFIX E @ key in
      case getItem (local_storage w) fullKey of
        None \<Rightarrow> w
      | Some v \<Rightarrow>
          if v = ''undefined'' then w
          else (let w' = w\<lparr>session_storage := setItem (session_storage w) fullKey v\<rparr> in
                case JSON_parse J v of
                  Inl e \<Rightarrow> emit (Restore_ErrorLocalStorage key) w'
                | Inr parsedValue \<Rightarrow>
                    w'\<lparr>store := AList.update key (Plain (Value parsedValue)) (store w')\<rparr>))"

definition restore_session :: "json_api \<Rightarrow> SessionStorage \<Rightarrow> string \<Rightarrow> world \<Rightarrow> world" where
  "restore_session J E key w =
     (let fullKey = KEY_PREFIX E @ key in
      case getItem (session_storage w) fullKey of
        None \<Rightarrow> w
      | Some v \<Rightarrow>
          if v = ''undefined'' then w
          else (case JSON_parse J v of
                  Inl e \<Rightarrow> emit (Restore_ErrorSessionStorage key) w
                | Inr parsedValue \<Rightarrow>
                    w\<lparr>store := AList.update key (Plain (Value parsedValue)) (store w)\<rparr>))"

text \<open>
  The \<^verbatim>\<open>forEach\<close> over the IDO mapping runs inside the \<^verbatim>\<open>try\<close>: it stops at the first
  exception and keeps what the earlier entries wrote.
\<close>

fun restore_entries ::
  "json_api \<Rightarrow> SessionStorage \<Rightarrow> json \<Rightarrow> (string \<times> string) list \<Rightarrow> world \<Rightarrow> error option \<times> world" where
  "restore_entries J E idoData [] w = (None, w)"
| "restore_entries J E idoData ((stateProperty, idoProperty) # rest) w =
     (case get_property idoData idoProperty of
        Inl e \<Rightarrow> (Some e, w)
      | Inr v \<Rightarrow>
          if v \<noteq> Undefined then
            (let w' = w\<lparr>store := AList.update stateProperty (Plain v) (store w)\<rparr> in
             case JSON_stringify J v of
               Inl e \<Rightarrow> (Some e, w')
             | Inr s \<Rightarrow>
                 restore_entries J E idoData rest
                   (w'\<lparr>session_storage :=
                         setItem (session_storage w') (KEY_PREFIX E @ stateProperty) s\<rparr>))
          else restore_entries J E idoData rest w)"

text \<open>The \<^verbatim>\<open>catch\<close> around it writes one message and goes on with the state reached.\<close>

definition caught :: "error option \<times> world \<Rightarrow> world" where
  "caught r = (case fst r of None \<Rightarrow> snd r | Some e \<Rightarrow> emit Restore_ErrorIdo (snd r))"

definition restore_ido :: "json_api \<Rightarrow> SessionStorage \<Rightarrow> PermanentConfig \<Rightarrow> SessionStorage option \<Rightarrow> world \<Rightarrow> world" where
  "restore_ido J E cfg orchestratorStorage w =
     (case orchestratorStorage of
        None \<Rightarrow> w
      | Some orch \<Rightarrow>
          if idoEntries cfg = [] then w
          else (case getItem (local_storage w) (orchestratorIdoKey E orch) of
                  None \<Rightarrow> w
                | Some idoDataStr \<Rightarrow>
                    if idoDataStr = [] \<or> idoDataStr = ''undefined'' then w
                    else (case JSON_parse J idoDataStr of
                            Inl e \<Rightarrow> emit Restore_ErrorIdo w
                          | Inr idoData \<Rightarrow>
                              caught (restore_entries J E idoData (idoEntries cfg) w))))"

definition restore2 :: "json_api \<Rightarrow> SessionStorage \<Rightarrow> SessionStorage option \<Rightarrow> world \<Rightarrow> error + world" where
  "restore2 J E orchestratorStorage w =
     (case permanent E of
        None \<Rightarrow> Inr (emit Restore_NoPermanentConfig w)
      | Some cfg \<Rightarrow>
          (let w1 = fold (restore_local J E) (localStorageKeys cfg) w;
               w2 = fold (restore_session J E) (sessionStorageKeys cfg) w1
           in Inr (restore_ido J E cfg orchestratorStorage w2)))"

section \<open>The first implementation (lines 1 to 368)\<close>

definition setOrchestratorData :: "string \<Rightarrow> jsval \<Rightarrow> world \<Rightarrow> world" where
  "setOrchestratorData key v w = w\<lparr>orchestrator_data := AList.update key v (orchestrator_data w)\<rparr>"

text \<open>\<^verbatim>\<open>orchestratorData[iddKey]\<close> on what \<^verbatim>\<open>getOrchestratorData\<close> returns.\<close>

definition getOrchestratorData :: "world \<Rightarrow> string \<Rightarrow> jsval" where
  "getOrchestratorData w key = (case map_of (orchestrator_data w) key of None \<Rightarrow> Undefined | Some v \<Rightarrow> v)"

text \<open>
  \<^verbatim>\<open>handlePermanentStorage\<close>: the localStorage copy for a key of the localStorage list,
  then the transfer to the orchestrator for a key the IDO mapping sends to a non-empty name.
\<close>

definition persist_local :: "json_api \<Rightarrow> SessionStorage \<Rightarrow> PermanentConfig \<Rightarrow> string \<Rightarrow> jsval \<Rightarrow> world \<Rightarrow> error + world" where
  "persist_local J E cfg key v w =
     (case localStorage cfg of
        None \<Rightarrow> Inr w
      | Some ks \<Rightarrow>
          if key \<in> set ks then
            (case JSON_stringify J v of
               Inl e \<Rightarrow> Inl e
             | Inr serializedValue \<Rightarrow>
                 Inr (emit (Persisted_localStorage key)
                        (w\<lparr>local_storage :=
                             setItem (local_storage w) (KEY_PREFIX E @ key) serializedValue\<rparr>)))
          else Inr w)"

definition transfer_ido :: "PermanentConfig \<Rightarrow> string \<Rightarrow> jsval \<Rightarrow> world \<Rightarrow> world" where
  "transfer_ido cfg key v w =
     (case ido cfg of
        None \<Rightarrow> w
      | Some m \<Rightarrow>
          (case map_of m key of
             None \<Rightarrow> w
           | Some orchestratorKey \<Rightarrow>
               if orchestratorKey = [] then w
               else emit (Transferred_IDO key orchestratorKey) (setOrchestratorData orchestratorKey v w)))"

definition handlePermanentStorage :: "json_api \<Rightarrow> SessionStorage \<Rightarrow> string \<Rightarrow> jsval \<Rightarrow> world \<Rightarrow> error + world" where
  "handlePermanentStorage J E key v w =
     (case permanent E of
        None \<Rightarrow> Inr w
      | Some cfg \<Rightarrow>
          (case persist_local J E cfg key v w of
             Inl e \<Rightarrow> Inl e
           | Inr w' \<Rightarrow> Inr (transfer_ido cfg key v w')))"

definition set1 :: "json_api \<Rightarrow> SessionStorage \<Rightarrow> string \<Rightarrow> jsval \<Rightarrow> world \<Rightarrow> error + world" where
  "set1 J E key v w =
     (case JSON_stringify J v of
        Inl e \<Rightarrow> Inl e
      | Inr serializedValue \<Rightarrow>
          handlePermanentStorage J E key v
            (w\<lparr>store := assign (store w) key v,
               session_storage :=
                 setItem (session_storage w) (KEY_PREFIX E @ key) serializedValue\<rparr>))"

text \<open>
  \<^verbatim>\<open>restore\<close> takes no argument. Its first loop runs over the keys of the store, whatever
  the configuration; the second, over the sessionStorage list, has the same body and
  also logs the key it restored.
\<close>

definition restore1_session :: "json_api \<Rightarrow> SessionStorage \<Rightarrow> bool \<Rightarrow> string \<Rightarrow> world \<Rightarrow> world" where
  "restore1_session J E logged key w =
     (case getItem (session_storage w) (KEY_PREFIX E @ key) of
        None \<Rightarrow> w
      | Some storedValue \<Rightarrow>
          (case JSON_parse J storedValue of
             Inl e \<Rightarrow> emit (Failed_sessionStorage key) w
           | Inr parsedValue \<Rightarrow>
               (let w' = w\<lparr>store := assign (store w) key (Value parsedValue)\<rparr>
                in if logged then emit (Restored_sessionStorage key) w' else w')))"

definition restore1_local :: "json_api \<Rightarrow> SessionStorage \<Rightarrow> string \<Rightarrow> world \<Rightarrow> world" where
  "restore1_local J E key w =
     (case getItem (local_storage w) (KEY_PREFIX E @ key) of
        None \<Rightarrow> w
      | Some storedValue \<Rightarrow>
          (case JSON_parse J storedValue of
             Inl e \<Rightarrow> emit (Failed_localStorage key) w
           | Inr parsedValue \<Rightarrow>
               emit (Restored_localStorage key)
                 (w\<lparr>store := assign (store w) key (Value parsedValue)\<rparr>)))"

definition restore1_ido :: "string \<times> string \<Rightarrow> world \<Rightarrow> world" where
  "restore1_ido entry w =
     (let iddValue = getOrchestratorData w (snd entry) in
      if iddValue \<noteq> Undefined
      then emit (Restored_IDO (snd entry)) (w\<lparr>store := assign (store w) (fst entry) iddValue\<rparr>)
      else w)"

definition restore1 :: "json_api \<Rightarrow> SessionStorage \<Rightarrow> world \<Rightarrow> error + world" where
  "restore1 J E w =
     (let w1 = fold (restore1_session J E False) (map fst (store w)) w;
          w2 = (case Option.bind (permanent E) sessionStorage of
                  None \<Rightarrow> w1 | Some ks \<Rightarrow> fold (restore1_session J E True) ks w1);
          w3 = (case Option.bind (permanent E) localStorage of
                  None \<Rightarrow> w2 | Some ks \<Rightarrow> fold (restore1_local J E) ks w2);
          w4 = (case Option.bind (permanent E) ido of
                  None \<Rightarrow> w3 | Some m \<Rightarrow> fold restore1_ido m w3)
      in Inr w4)"

section \<open>An engine without the shared tier\<close>

text \<open>The same engine with the \<^verbatim>\<open>ido\<close> field of its configuration left out.\<close>

definition without_ido :: "SessionStorage \<Rightarrow> SessionStorage" where
  "without_ido E = E\<lparr>permanent := map_option (\<lambda>cfg. cfg\<lparr>ido := None\<rparr>) (permanent E)\<rparr>"

section \<open>The properties init reads\<close>

text \<open>
  \<open>signal_at\<close> says that a property of the store is a signal object. \<open>init_keys\<close> lists the
  keys whose property \<^verbatim>\<open>init\<close> reads: those of the localStorage and sessionStorage lists
  and, when an orchestrator is passed, those of the IDO mapping.
\<close>

definition signal_at :: "(string \<times> cell) list \<Rightarrow> string \<Rightarrow> bool" where
  "signal_at st k = (case map_of st k of Some (Signal _) \<Rightarrow> True | _ \<Rightarrow> False)"

definition init_keys :: "SessionStorage \<Rightarrow> SessionStorage option \<Rightarrow> string list" where
  "init_keys E orchestratorStorage =
     (case permanent E of
        None \<Rightarrow> []
      | Some cfg \<Rightarrow>
          localStorageKeys cfg @ sessionStorageKeys cfg
          @ (case orchestratorStorage of None \<Rightarrow> [] | Some orch \<Rightarrow> map fst (idoEntries cfg)))"

section \<open>A JSON fragment and sample states for the examples\<close>

text \<open>
  The examples run the engine on a few JSON texts. On the texts and values of this
  table \<open>sample_json\<close> parses and prints as \<^verbatim>\<open>JSON.parse\<close> and \<^verbatim>\<open>JSON.stringify\<close> do.
  Every other text is rejected, which is what \<^verbatim>\<open>JSON.parse\<close> does with the other texts
  of the examples (\<^verbatim>\<open>{bad\<close> and \<^verbatim>\<open>undefined\<close>); the examples print no value outside the
  table.
\<close>

definition phones_text :: string where
  \<open>phones_text = ''{"userPhones":2}''\<close>

definition sample_texts :: "(string \<times> json) list" where
  "sample_texts =
     [(''null'', JNull),
      (''true'', JBool True),
      (''1'', JNum 1),
      (''2'', JNum 2),
      (phones_text, JObj [(''userPhones'', JNum 2)])]"

definition sample_json :: json_api where
  "sample_json =
     \<lparr>parse_text = map_of sample_texts,
      text_of = (\<lambda>j. case find (\<lambda>p. snd p = j) sample_texts of
                       Some p \<Rightarrow> fst p | None \<Rightarrow> ''null'')\<rparr>"

text \<open>
  The configuration of the repository's restore test, with one more session key:
  \<^verbatim>\<open>login\<close> is durable, \<^verbatim>\<open>profile\<close>, \<^verbatim>\<open>phone\<close> and \<^verbatim>\<open>draft\<close> are kept for the session,
  \<^verbatim>\<open>phone\<close> is shared under the name \<^verbatim>\<open>userPhones\<close>.
\<close>

definition cfg0 :: PermanentConfig where
  "cfg0 = \<lparr>localStorage = Some [''login''],
           sessionStorage = Some [''profile'', ''phone'', ''draft''],
           ido = Some [(''phone'', ''userPhones'')]\<rparr>"

definition E0 :: SessionStorage where
  "E0 = \<lparr>KEY_PREFIX = ''AUTH-'', permanent = Some cfg0\<rparr>"

definition E_plain :: SessionStorage where
  "E_plain = \<lparr>KEY_PREFIX = ''AUTH-'', permanent = None\<rparr>"

definition ORCH :: SessionStorage where
  "ORCH = \<lparr>KEY_PREFIX = ''ORCH-'', permanent = None\<rparr>"

definition w_empty :: world where
  "w_empty = \<lparr>store = [], session_storage = [], local_storage = [],
              orchestrator_data = [], console = []\<rparr>"

text \<open>
  A state before \<^verbatim>\<open>restore\<close>: sessionStorage holds \<^verbatim>\<open>1\<close> for the profile and the phone
  and a malformed text for the draft, localStorage a malformed text for the login, and
  both orchestrator channels hold \<^verbatim>\<open>2\<close> under \<^verbatim>\<open>userPhones\<close>.
\<close>

definition w_stored :: world where
  "w_stored =
     \<lparr>store = [(''profile'', Plain (Value JNull)), (''phone'', Signal (Value JNull)),
               (''login'', Plain (Value JNull)), (''draft'', Plain (Value (JBool True)))],
      session_storage = [(''AUTH-profile'', ''1''), (''AUTH-phone'', ''1''),
                         (''AUTH-draft'', ''{bad'')],
      local_storage = [(''AUTH-login'', ''{bad''), (''ORCH-authIdo'', phones_text)],
      orchestrator_data = [(''userPhones'', Value (JNum 2))],
      console = []\<rparr>"

text \<open>The state after \<^verbatim>\<open>set('login', 1)\<close> on the empty state, and a store with no stored entry.\<close>

definition w_login :: world where
  "w_login = \<lparr>store = [(''login'', Plain (Value (JNum 1)))],
              session_storage = [(''AUTH-login'', ''1'')],
              local_storage = [], orchestrator_data = [], console = []\<rparr>"

definition w_fresh :: world where
  "w_fresh = \<lparr>store = [(''profile'', Plain (Value JNull))],
              session_storage = [], local_storage = [], orchestrator_data = [], console = []\<rparr>"


text \<open>
  Two plain properties hold an object with a cycle; and a store whose login property
  is a signal object.
\<close>

definition w_cyclic :: world where
  "w_cyclic = \<lparr>store = [(''login'', Plain NotSerializable), (''phone'', Plain NotSerializable)],
               session_storage = [], local_storage = [], orchestrator_data = [], console = []\<rparr>"

definition w_signal :: world where
  "w_signal = \<lparr>store = [(''login'', Signal (Value (JNum 1)))],
               session_storage = [], local_storage = [], orchestrator_data = [], console = []\<rparr>"

definition w_session :: world where
  "w_session = \<lparr>store = [(''profile'', Plain (Value JNull))],
                session_storage = [(''AUTH-profile'', ''1'')],
                local_storage = [], orchestrator_data = [], console = []\<rparr>"

section \<open>Storage areas, cells and the console\<close>

lemma getItem_setItem: "getItem (setItem a k v) k' = (if k' = k then Some v else getItem a k')"
  by (simp add: getItem_def setItem_def update_conv')

lemma getItem_removeItem: "getItem (removeItem a k) k' = (if k' = k then None else getItem a k')"
  by (simp add: getItem_def removeItem_def delete_conv')

lemma map_of_assign:
  "map_of (assign st k v) k' =
     (if k' = k then Some (case map_of st k of Some (Signal _) \<Rightarrow> Signal v | _ \<Rightarrow> Plain v)
      else map_of st k')"
  by (simp add: assign_def update_conv' split: option.split cell.split)

lemma container_get_assign:
  "container_get (assign st k v) k' = (if k' = k then v else container_get st k')"
  by (simp add: container_get_def map_of_assign split: option.split cell.split)

lemma emit_fields:
  "store (emit d w) = store w" "session_storage (emit d w) = session_storage w"
  "local_storage (emit d w) = local_storage w" "orchestrator_data (emit d w) = orchestrator_data w"
  by (simp_all add: emit_def)

lemma caught_fields:
  "store (caught r) = store (snd r)" "session_storage (caught r) = session_storage (snd r)"
  "local_storage (caught r) = local_storage (snd r)"
  "orchestrator_data (caught r) = orchestrator_data (snd r)"
  by (simp_all add: caught_def emit_fields split: option.split)

lemma replace_first_prefix: "replace_first p (p @ k) = k"
proof (cases "p @ k")
  case Nil
  then show ?thesis by simp
next
  case (Cons c cs)
  have "prefix p (c # cs)" using Cons by (metis prefixI)
  moreover have "drop (length p) (c # cs) = k" using Cons by (metis append_eq_conv_conj)
  ultimately show ?thesis using Cons by simp
qed

lemma get_property_serializable: "get_property d p = Inr v \<Longrightarrow> v \<noteq> NotSerializable"
  by (cases d) (auto split: option.splits if_splits)

lemma get_property_not_null: "d \<noteq> JNull \<Longrightarrow> \<exists>v. get_property d p = Inr v"
  by (cases d) (auto split: option.splits if_splits)

lemma JSON_stringify_total: "v \<noteq> NotSerializable \<Longrightarrow> \<exists>s. JSON_stringify J v = Inr s"
  by (cases v) (simp_all add: JSON_stringify_def)

section \<open>The passes of restore, second implementation\<close>

text \<open>
  Each pass is a loop over a list of keys. What a pass leaves alone (the other storage
  area, the properties of the other keys) is proved for one step and carried through
  the loop by induction on the list.
\<close>

lemma restore_local_local: "local_storage (restore_local J E k w) = local_storage w"
  by (simp add: restore_local_def Let_def emit_fields split: option.split sum.split)

lemma fold_restore_local_local: "local_storage (fold (restore_local J E) ks w) = local_storage w"
  by (induction ks arbitrary: w) (simp_all add: restore_local_local)

lemma restore_local_other:
  "k' \<noteq> k \<Longrightarrow> map_of (store (restore_local J E k' w)) k = map_of (store w) k
     \<and> getItem (session_storage (restore_local J E k' w)) (KEY_PREFIX E @ k)
         = getItem (session_storage w) (KEY_PREFIX E @ k)"
  by (simp add: restore_local_def Let_def emit_fields getItem_setItem update_conv' split: option.split sum.split)

lemma fold_restore_local_other:
  "k \<notin> set ks \<Longrightarrow> map_of (store (fold (restore_local J E) ks w)) k = map_of (store w) k
     \<and> getItem (session_storage (fold (restore_local J E) ks w)) (KEY_PREFIX E @ k)
         = getItem (session_storage w) (KEY_PREFIX E @ k)"
  by (induction ks arbitrary: w) (auto simp: restore_local_other)

lemma restore_local_malformed:
  assumes "getItem (local_storage w) (KEY_PREFIX E @ k) = Some s" "s \<noteq> ''undefined''"
    "parse_text J s = None"
  shows "map_of (store (restore_local J E k w)) k = map_of (store w) k"
    and "getItem (session_storage (restore_local J E k w)) (KEY_PREFIX E @ k) = Some s"
  using assms by (simp_all add: restore_local_def Let_def emit_fields getItem_setItem JSON_parse_def)

lemma fold_restore_local_malformed:
  assumes "getItem (local_storage w) (KEY_PREFIX E @ k) = Some s" "s \<noteq> ''undefined''"
    "parse_text J s = None"
  shows "map_of (store (fold (restore_local J E) ks w)) k = map_of (store w) k"
  using assms
proof (induction ks arbitrary: w)
  case Nil
  then show ?case by simp
next
  case (Cons k' ks)
  have "getItem (local_storage (restore_local J E k' w)) (KEY_PREFIX E @ k) = Some s"
    using Cons.prems by (simp add: restore_local_local)
  from Cons.IH [OF this Cons.prems(2,3)] Cons.prems show ?case
    by (cases "k' = k") (simp_all add: restore_local_malformed restore_local_other)
qed

lemma fold_restore_local_mirror:
  assumes "getItem (local_storage w) (KEY_PREFIX E @ k) = Some s" "s \<noteq> ''undefined''"
    "k \<in> set ks \<or> getItem (session_storage w) (KEY_PREFIX E @ k) = Some s"
  shows "getItem (session_storage (fold (restore_local J E) ks w)) (KEY_PREFIX E @ k) = Some s"
  using assms
proof (induction ks arbitrary: w)
  case Nil
  then show ?case by simp
next
  case (Cons k' ks)
  let ?w = "restore_local J E k' w"
  have loc: "getItem (local_storage ?w) (KEY_PREFIX E @ k) = Some s"
    using Cons.prems by (simp add: restore_local_local)
  have "k \<in> set ks \<or> getItem (session_storage ?w) (KEY_PREFIX E @ k) = Some s"
  proof (cases "k' = k")
    case True
    with Cons.prems show ?thesis
      by (simp add: restore_local_def Let_def emit_fields getItem_setItem split: sum.split)
  next
    case False
    with Cons.prems show ?thesis by (auto simp: restore_local_other)
  qed
  from Cons.IH [OF loc Cons.prems(2) this] show ?case by simp
qed

lemma restore_session_frame:
  "session_storage (restore_session J E k w) = session_storage w"
  "local_storage (restore_session J E k w) = local_storage w"
  by (simp_all add: restore_session_def Let_def emit_fields split: option.split sum.split)

lemma fold_restore_session_frame:
  "session_storage (fold (restore_session J E) ks w) = session_storage w
   \<and> local_storage (fold (restore_session J E) ks w) = local_storage w"
  by (induction ks arbitrary: w) (simp_all add: restore_session_frame)

lemma restore_session_other:
  "k' \<noteq> k \<Longrightarrow> map_of (store (restore_session J E k' w)) k = map_of (store w) k"
  by (simp add: restore_session_def Let_def emit_fields update_conv' split: option.split sum.split)

lemma restore_session_malformed:
  assumes "getItem (session_storage w) (KEY_PREFIX E @ k) = Some s" "parse_text J s = None"
  shows "map_of (store (restore_session J E k w)) k = map_of (store w) k"
  using assms by (simp add: restore_session_def Let_def emit_fields JSON_parse_def)

lemma fold_restore_session_malformed:
  assumes "getItem (session_storage w) (KEY_PREFIX E @ k) = Some s" "parse_text J s = None"
  shows "map_of (store (fold (restore_session J E) ks w)) k = map_of (store w) k"
  using assms
proof (induction ks arbitrary: w)
  case Nil
  then show ?case by simp
next
  case (Cons k' ks)
  have "getItem (session_storage (restore_session J E k' w)) (KEY_PREFIX E @ k) = Some s"
    using Cons.prems by (simp add: restore_session_frame)
  from Cons.IH [OF this Cons.prems(2)] Cons.prems show ?case
    by (cases "k' = k") (simp_all add: restore_session_malformed restore_session_other)
qed

lemma restore_session_valid:
  assumes "getItem (session_storage w) (KEY_PREFIX E @ k) = Some s" "s \<noteq> ''undefined''"
    "parse_text J s = Some j"
  shows "map_of (store (restore_session J E k w)) k = Some (Plain (Value j))"
  using assms by (simp add: restore_session_def Let_def JSON_parse_def update_conv')

lemma fold_restore_session_valid:
  assumes "getItem (session_storage w) (KEY_PREFIX E @ k) = Some s" "s \<noteq> ''undefined''"
    "parse_text J s = Some j"
    "k \<in> set ks \<or> map_of (store w) k = Some (Plain (Value j))"
  shows "map_of (store (fold (restore_session J E) ks w)) k = Some (Plain (Value j))"
  using assms
proof (induction ks arbitrary: w)
  case Nil
  then show ?case by simp
next
  case (Cons k' ks)
  have ses: "getItem (session_storage (restore_session J E k' w)) (KEY_PREFIX E @ k) = Some s"
    using Cons.prems by (simp add: restore_session_frame)
  have "k \<in> set ks \<or> map_of (store (restore_session J E k' w)) k = Some (Plain (Value j))"
    using Cons.prems by (cases "k' = k") (auto simp: restore_session_valid restore_session_other)
  from Cons.IH [OF ses Cons.prems(2,3) this] show ?case by simp
qed

lemma restore_entries_no_error:
  "d \<noteq> JNull \<Longrightarrow> fst (restore_entries J E d m w) = None"
proof (induction m arbitrary: w)
  case Nil
  then show ?case by simp
next
  case (Cons e m)
  obtain sp ip where e: "e = (sp, ip)" by (cases e)
  from Cons.prems obtain v where v: "get_property d ip = Inr v"
    using get_property_not_null by blast
  then obtain s where s: "JSON_stringify J v = Inr s"
    using get_property_serializable JSON_stringify_total by blast
  show ?case using Cons.IH [OF Cons.prems] by (simp add: e v s Let_def)
qed

lemma restore_entries_other:
  "k \<notin> fst ` set m \<Longrightarrow>
     map_of (store (snd (restore_entries J E d m w))) k = map_of (store w) k
     \<and> getItem (session_storage (snd (restore_entries J E d m w))) (KEY_PREFIX E @ k)
         = getItem (session_storage w) (KEY_PREFIX E @ k)"
  by (induction J E d m w rule: restore_entries.induct)
     (auto simp: Let_def getItem_setItem update_conv' split: sum.split)

lemma restore_entries_wins:
  assumes "distinct (map fst m)" "(k, r) \<in> set m" "get_property d r = Inr v" "v \<noteq> Undefined"
  shows "map_of (store (snd (restore_entries J E d m w))) k = Some (Plain v)"
  using assms
proof (induction m arbitrary: w)
  case Nil
  then show ?case by simp
next
  case (Cons e m)
  obtain sp ip where e: "e = (sp, ip)" by (cases e)
  have dn: "d \<noteq> JNull" using Cons.prems(3) by auto
  obtain v' where v': "get_property d ip = Inr v'"
    using get_property_not_null [OF dn] by blast
  then obtain s' where s': "JSON_stringify J v' = Inr s'"
    using get_property_serializable JSON_stringify_total by blast
  show ?case
  proof (cases "(k, r) = e")
    case True
    then have kr: "sp = k" "ip = r" using e by auto
    have notin: "k \<notin> fst ` set m" using Cons.prems(1) e kr by auto
    from Cons.prems(3) v' kr have vv: "v' = v" by simp
    show ?thesis using Cons.prems(4) s'
      by (simp add: e kr Cons.prems(3) vv Let_def restore_entries_other [OF notin] update_conv')
  next
    case False
    then have "(k, r) \<in> set m" using Cons.prems(2) by auto
    moreover have "distinct (map fst m)" using Cons.prems(1) by simp
    ultimately have IH: "\<And>w. map_of (store (snd (restore_entries J E d m w))) k = Some (Plain v)"
      using Cons.IH Cons.prems(3,4) by blast
    show ?thesis by (simp add: e v' s' Let_def IH)
  qed
qed

lemma restore_ido_other:
  assumes "orch = None \<or> k \<notin> fst ` set (idoEntries cfg)"
  shows "map_of (store (restore_ido J E cfg orch w)) k = map_of (store w) k
     \<and> getItem (session_storage (restore_ido J E cfg orch w)) (KEY_PREFIX E @ k)
         = getItem (session_storage w) (KEY_PREFIX E @ k)"
proof (cases orch)
  case None
  then show ?thesis by (simp add: restore_ido_def)
next
  case (Some orc)
  with assms have notin: "k \<notin> fst ` set (idoEntries cfg)" by simp
  show ?thesis
    by (simp add: restore_ido_def Some emit_fields caught_fields restore_entries_other [OF notin]
          split: option.split sum.split)
qed

section \<open>The passes of restore, first implementation\<close>

lemma restore1_session_frame:
  "session_storage (restore1_session J E l k w) = session_storage w"
  "local_storage (restore1_session J E l k w) = local_storage w"
  "orchestrator_data (restore1_session J E l k w) = orchestrator_data w"
  by (simp_all add: restore1_session_def Let_def emit_fields split: option.split sum.split)

lemma fold_restore1_session_frame:
  "session_storage (fold (restore1_session J E l) ks w) = session_storage w
   \<and> local_storage (fold (restore1_session J E l) ks w) = local_storage w
   \<and> orchestrator_data (fold (restore1_session J E l) ks w) = orchestrator_data w"
  by (induction ks arbitrary: w) (simp_all add: restore1_session_frame)

lemma restore1_session_other:
  "k' \<noteq> k \<Longrightarrow> map_of (store (restore1_session J E l k' w)) k = map_of (store w) k"
  by (simp add: restore1_session_def Let_def emit_fields map_of_assign split: option.split sum.split)

lemma restore1_session_malformed:
  assumes "getItem (session_storage w) (KEY_PREFIX E @ k) = Some s" "parse_text J s = None"
  shows "map_of (store (restore1_session J E l k w)) k = map_of (store w) k"
  using assms by (simp add: restore1_session_def emit_fields JSON_parse_def)

lemma fold_restore1_session_malformed:
  assumes "getItem (session_storage w) (KEY_PREFIX E @ k) = Some s" "parse_text J s = None"
  shows "map_of (store (fold (restore1_session J E l) ks w)) k = map_of (store w) k"
  using assms
proof (induction ks arbitrary: w)
  case Nil
  then show ?case by simp
next
  case (Cons k' ks)
  have "getItem (session_storage (restore1_session J E l k' w)) (KEY_PREFIX E @ k) = Some s"
    using Cons.prems by (simp add: restore1_session_frame)
  from Cons.IH [OF this Cons.prems(2)] Cons.prems show ?case
    by (cases "k' = k") (simp_all add: restore1_session_malformed restore1_session_other)
qed

lemma restore1_session_valid:
  assumes "getItem (session_storage w) (KEY_PREFIX E @ k) = Some s" "parse_text J s = Some j"
  shows "container_get (store (restore1_session J E l k w)) k = Value j"
  using assms
  by (simp add: restore1_session_def Let_def emit_fields JSON_parse_def container_get_assign)

lemma fold_restore1_session_valid:
  assumes "getItem (session_storage w) (KEY_PREFIX E @ k) = Some s" "parse_text J s = Some j"
    "k \<in> set ks \<or> container_get (store w) k = Value j"
  shows "container_get (store (fold (restore1_session J E l) ks w)) k = Value j"
  using assms
proof (induction ks arbitrary: w)
  case Nil
  then show ?case by simp
next
  case (Cons k' ks)
  have ses: "getItem (session_storage (restore1_session J E l k' w)) (KEY_PREFIX E @ k) = Some s"
    using Cons.prems by (simp add: restore1_session_frame)
  have "k \<in> set ks \<or> container_get (store (restore1_session J E l k' w)) k = Value j"
  proof (cases "k' = k")
    case True
    then show ?thesis using restore1_session_valid [OF Cons.prems(1,2)] by simp
  next
    case False
    then have "container_get (store (restore1_session J E l k' w)) k = container_get (store w) k"
      by (simp add: container_get_def restore1_session_other)
    then show ?thesis using Cons.prems(3) False by auto
  qed
  from Cons.IH [OF ses Cons.prems(2) this] show ?case by simp
qed

lemma fold_restore1_session_absent:
  "\<forall>k\<in>set ks. getItem (session_storage w) (KEY_PREFIX E @ k) = None \<Longrightarrow>
     fold (restore1_session J E l) ks w = w"
  by (induction ks) (simp_all add: restore1_session_def)

lemma restore1_local_frame:
  "session_storage (restore1_local J E k w) = session_storage w"
  "local_storage (restore1_local J E k w) = local_storage w"
  "orchestrator_data (restore1_local J E k w) = orchestrator_data w"
  by (simp_all add: restore1_local_def emit_fields split: option.split sum.split)

lemma fold_restore1_local_frame:
  "orchestrator_data (fold (restore1_local J E) ks w) = orchestrator_data w"
  by (induction ks arbitrary: w) (simp_all add: restore1_local_frame)

lemma restore1_local_other:
  "k' \<noteq> k \<Longrightarrow> map_of (store (restore1_local J E k' w)) k = map_of (store w) k"
  by (simp add: restore1_local_def emit_fields map_of_assign split: option.split sum.split)

lemma fold_restore1_local_other:
  "k \<notin> set ks \<Longrightarrow> map_of (store (fold (restore1_local J E) ks w)) k = map_of (store w) k"
  by (induction ks arbitrary: w) (auto simp: restore1_local_other)

lemma restore1_ido_frame: "orchestrator_data (restore1_ido e w) = orchestrator_data w"
  by (simp add: restore1_ido_def Let_def emit_fields)

lemma restore1_ido_other:
  "fst e \<noteq> k \<Longrightarrow> map_of (store (restore1_ido e w)) k = map_of (store w) k"
  by (simp add: restore1_ido_def Let_def emit_fields map_of_assign)

lemma fold_restore1_ido_other:
  "k \<notin> fst ` set m \<Longrightarrow> map_of (store (fold restore1_ido m w)) k = map_of (store w) k"
  by (induction m arbitrary: w) (auto simp: restore1_ido_other)

lemma fold_restore1_ido_wins:
  assumes "distinct (map fst m)" "(k, r) \<in> set m" "getOrchestratorData w r = v" "v \<noteq> Undefined"
  shows "container_get (store (fold restore1_ido m w)) k = v"
  using assms
proof (induction m arbitrary: w)
  case Nil
  then show ?case by simp
next
  case (Cons e m)
  have od: "getOrchestratorData (restore1_ido e w) r = v"
    using Cons.prems(3) by (simp add: getOrchestratorData_def restore1_ido_frame)
  show ?case
  proof (cases "e = (k, r)")
    case True
    then have notin: "k \<notin> fst ` set m" using Cons.prems(1) by auto
    have "container_get (store (restore1_ido e w)) k = v"
      using True Cons.prems(3,4) by (simp add: restore1_ido_def emit_fields container_get_assign)
    then show ?thesis
      using fold_restore1_ido_other [OF notin] by (simp add: container_get_def)
  next
    case False
    then have "(k, r) \<in> set m" using Cons.prems(2) by auto
    moreover have "distinct (map fst m)" using Cons.prems(1) by simp
    ultimately show ?thesis using Cons.IH od Cons.prems(4) by simp
  qed
qed

section \<open>Reading through get\<close>

lemma get2_frame:
  "session_storage (snd (get2 J E k d w)) = session_storage w"
  "local_storage (snd (get2 J E k d w)) = local_storage w"
  by (simp_all add: get2_def emit_fields split: option.split sum.split)

lemma get2_other:
  "k' \<noteq> k \<Longrightarrow> map_of (store (snd (get2 J E k' d w))) k = map_of (store w) k"
  by (simp add: get2_def emit_fields map_of_assign split: option.split sum.split)

lemma get2_valid:
  assumes "getItem (session_storage w) (KEY_PREFIX E @ k) = Some s" "s \<noteq> ''undefined''"
    "parse_text J s = Some j"
  shows "get2 J E k d w = (Value j, w\<lparr>store := assign (store w) k (Value j)\<rparr>)"
  using assms by (simp add: get2_def JSON_parse_def)

lemma snd_getAll_step: "snd (getAll_step J E k rw) = snd (get2 J E k Undefined (snd rw))"
  by (simp add: getAll_step_def split: prod.split)

lemma fold_getAll_step_valid:
  assumes "getItem (session_storage (snd rw)) (KEY_PREFIX E @ k) = Some s" "s \<noteq> ''undefined''"
    "parse_text J s = Some j"
    "k \<in> set ks \<or> container_get (store (snd rw)) k = Value j"
  shows "container_get (store (snd (fold (getAll_step J E) ks rw))) k = Value j"
  using assms
proof (induction ks arbitrary: rw)
  case Nil
  then show ?case by simp
next
  case (Cons k' ks)
  let ?rw = "getAll_step J E k' rw"
  have ses: "getItem (session_storage (snd ?rw)) (KEY_PREFIX E @ k) = Some s"
    using Cons.prems(1) by (simp add: snd_getAll_step get2_frame)
  have "k \<in> set ks \<or> container_get (store (snd ?rw)) k = Value j"
  proof (cases "k' = k")
    case True
    then show ?thesis
      by (simp add: snd_getAll_step get2_valid [OF Cons.prems(1,2,3)] container_get_assign)
  next
    case False
    then have "container_get (store (snd ?rw)) k = container_get (store (snd rw)) k"
      by (simp add: snd_getAll_step container_get_def get2_other)
    then show ?thesis using Cons.prems(4) False by auto
  qed
  from Cons.IH [OF ses Cons.prems(2,3) this] show ?case by simp
qed

section \<open>The steps of exit\<close>

lemma exit_key_other:
  "fullKey \<noteq> fk \<Longrightarrow>
     getItem (session_storage (exit_key E cfg fullKey w)) fk = getItem (session_storage w) fk
     \<and> getItem (local_storage (exit_key E cfg fullKey w)) fk = getItem (local_storage w) fk"
  by (simp add: exit_key_def Let_def emit_fields getItem_setItem getItem_removeItem split: option.split)

lemma exit_key_move:
  assumes "k \<in> set (localStorageKeys cfg)"
  shows "getItem (session_storage (exit_key E cfg (KEY_PREFIX E @ k) w)) (KEY_PREFIX E @ k) = None"
    and "getItem (local_storage (exit_key E cfg (KEY_PREFIX E @ k) w)) (KEY_PREFIX E @ k)
           = (case getItem (session_storage w) (KEY_PREFIX E @ k) of
                None \<Rightarrow> getItem (local_storage w) (KEY_PREFIX E @ k) | Some v \<Rightarrow> Some v)"
  using assms
  by (simp_all add: exit_key_def Let_def replace_first_prefix getItem_setItem getItem_removeItem
        split: option.split)

lemma fold_exit_key_move:
  assumes "k \<in> set (localStorageKeys cfg)"
    and "(KEY_PREFIX E @ k \<in> set ks \<and> getItem (session_storage w) (KEY_PREFIX E @ k) = Some s)
         \<or> (getItem (session_storage w) (KEY_PREFIX E @ k) = None
             \<and> getItem (local_storage w) (KEY_PREFIX E @ k) = Some s)"
  shows "getItem (session_storage (fold (exit_key E cfg) ks w)) (KEY_PREFIX E @ k) = None
     \<and> getItem (local_storage (fold (exit_key E cfg) ks w)) (KEY_PREFIX E @ k) = Some s"
  using assms(2)
proof (induction ks arbitrary: w)
  case Nil
  then show ?case by simp
next
  case (Cons fullKey ks)
  let ?w = "exit_key E cfg fullKey w"
  have "(KEY_PREFIX E @ k \<in> set ks \<and> getItem (session_storage ?w) (KEY_PREFIX E @ k) = Some s)
         \<or> (getItem (session_storage ?w) (KEY_PREFIX E @ k) = None
             \<and> getItem (local_storage ?w) (KEY_PREFIX E @ k) = Some s)"
  proof (cases "fullKey = KEY_PREFIX E @ k")
    case True
    with Cons.prems show ?thesis
      by (auto simp: exit_key_move [OF assms(1)])
  next
    case False
    with Cons.prems show ?thesis by (auto simp: exit_key_other)
  qed
  from Cons.IH [OF this] show ?case by simp
qed

lemma fold_exit_prepare_frame:
  "session_storage (snd (fold (exit_prepare J E) m dw)) = session_storage (snd dw)
   \<and> local_storage (snd (fold (exit_prepare J E) m dw)) = local_storage (snd dw)"
proof (induction m arbitrary: dw)
  case Nil
  then show ?case by simp
next
  case (Cons e m)
  have "session_storage (snd (exit_prepare J E e dw)) = session_storage (snd dw)
      \<and> local_storage (snd (exit_prepare J E e dw)) = local_storage (snd dw)"
    by (simp add: exit_prepare_def split_beta emit_fields get2_frame)
  with Cons.IH show ?case by simp
qed

lemma store_ido_frame:
  "session_storage (store_ido J E orch d idoData w) = session_storage w"
  "key \<noteq> orchestratorIdoKey E orch \<Longrightarrow>
     getItem (local_storage (store_ido J E orch d idoData w)) key = getItem (local_storage w) key"
  by (simp_all add: store_ido_def emit_fields getItem_setItem split: sum.split)

lemma exit_ido_frame:
  assumes "\<forall>orc. orch = Some orc \<longrightarrow> orchestratorIdoKey E orc \<noteq> key"
  shows "session_storage (exit_ido J E cfg orch w) = session_storage w"
    and "getItem (local_storage (exit_ido J E cfg orch w)) key = getItem (local_storage w) key"
proof -
  note fr = fold_exit_prepare_frame [of J E "idoEntries cfg" "([], w)"]
  show "session_storage (exit_ido J E cfg orch w) = session_storage w"
    using fr by (simp add: exit_ido_def split_beta store_ido_frame split: option.split)
  show "getItem (local_storage (exit_ido J E cfg orch w)) key = getItem (local_storage w) key"
  proof (cases orch)
    case None
    then show ?thesis by (simp add: exit_ido_def)
  next
    case (Some orc)
    with assms have "key \<noteq> orchestratorIdoKey E orc" by auto
    from store_ido_frame(2) [OF this] fr show ?thesis
      by (simp add: exit_ido_def Some split_beta)
  qed
qed

lemma exit_clear_store_frame:
  "session_storage (exit_clear_store cfg w) = session_storage w"
  "local_storage (exit_clear_store cfg w) = local_storage w"
  by (simp_all add: exit_clear_store_def)

section \<open>Precedence of the shared tier in restore\<close>

lemma restore2_ido_wins:
  assumes cfg: "permanent E = Some cfg"
    and m: "distinct (map fst (idoEntries cfg))" "(k, r) \<in> set (idoEntries cfg)"
    and rec: "getItem (local_storage w) (orchestratorIdoKey E orch) = Some s"
             "s \<noteq> []" "s \<noteq> ''undefined''" "parse_text J s = Some idoData"
    and v: "get_property idoData r = Inr v" "v \<noteq> Undefined"
  shows "\<exists>w'. restore2 J E (Some orch) w = Inr w' \<and> container_get (store w') k = v"
proof -
  let ?w1 = "fold (restore_local J E) (localStorageKeys cfg) w"
  let ?w2 = "fold (restore_session J E) (sessionStorageKeys cfg) ?w1"
  let ?w3 = "restore_ido J E cfg (Some orch) ?w2"
  have r: "restore2 J E (Some orch) w = Inr ?w3"
    by (simp add: restore2_def cfg Let_def)
  have loc: "getItem (local_storage ?w2) (orchestratorIdoKey E orch) = Some s"
    using rec(1) by (simp add: fold_restore_session_frame fold_restore_local_local)
  have ne: "idoEntries cfg \<noteq> []" using m(2) by auto
  have dn: "idoData \<noteq> JNull" using v(1) by auto
  have "fst (restore_entries J E idoData (idoEntries cfg) ?w2) = None"
    using restore_entries_no_error [OF dn] .
  then have "?w3 = snd (restore_entries J E idoData (idoEntries cfg) ?w2)"
    using loc rec(2,3,4) ne
    by (simp add: restore_ido_def JSON_parse_def caught_def)
  then have "map_of (store ?w3) k = Some (Plain v)"
    using restore_entries_wins [OF m v] by simp
  with r show ?thesis by (simp add: container_get_def)
qed

lemma restore1_ido_wins:
  assumes cfg: "permanent E = Some cfg"
    and m: "distinct (map fst (idoEntries cfg))" "(k, r) \<in> set (idoEntries cfg)"
    and v: "getOrchestratorData w r = v" "v \<noteq> Undefined"
  shows "\<exists>w'. restore1 J E w = Inr w' \<and> container_get (store w') k = v"
proof -
  from m(2) obtain mm where mm: "ido cfg = Some mm" "idoEntries cfg = mm"
    by (cases "ido cfg") (auto simp: idoEntries_def)
  let ?w1 = "fold (restore1_session J E False) (map fst (store w)) w"
  let ?w2 = "case sessionStorage cfg of None \<Rightarrow> ?w1 | Some ks \<Rightarrow> fold (restore1_session J E True) ks ?w1"
  let ?w3 = "case localStorage cfg of None \<Rightarrow> ?w2 | Some ks \<Rightarrow> fold (restore1_local J E) ks ?w2"
  have r: "restore1 J E w = Inr (fold restore1_ido mm ?w3)"
    by (simp add: restore1_def cfg mm Let_def)
  have "orchestrator_data ?w3 = orchestrator_data w"
    by (simp add: fold_restore1_session_frame fold_restore1_local_frame split: option.split)
  then have "getOrchestratorData ?w3 r = v"
    using v(1) by (simp add: getOrchestratorData_def)
  from fold_restore1_ido_wins [OF _ _ this v(2), of mm k] m mm r show ?thesis by simp
qed

text \<open>
  Claim C1, restore precedence. Let the key \<open>k\<close> be shared under the remote name \<open>r\<close>
  (the IDO mapping is an object, so its keys are distinct). In the second implementation,
  when the orchestrator's IDO record in localStorage is a text, neither empty nor
  \<^verbatim>\<open>undefined\<close>, that parses to a value whose property \<open>r\<close> is defined, \<^verbatim>\<open>restore\<close> called
  with that orchestrator returns normally and the container's value for \<open>k\<close> is that
  property. In the first implementation the same holds for the window-scoped orchestrator
  object. Nothing is assumed about sessionStorage or localStorage: whatever value they
  hold for \<open>k\<close>, the shared one, applied last, is the one that stays.
\<close>

theorem restore_shared_value_wins:
  assumes "permanent E = Some cfg"
    and "distinct (map fst (idoEntries cfg))"
    and "(k, r) \<in> set (idoEntries cfg)"
  shows "(getItem (local_storage w) (orchestratorIdoKey E orch) = Some s
            \<and> s \<noteq> [] \<and> s \<noteq> ''undefined'' \<and> parse_text J s = Some idoData
            \<and> get_property idoData r = Inr v \<and> v \<noteq> Undefined
          \<longrightarrow> (\<exists>w'. restore2 J E (Some orch) w = Inr w' \<and> container_get (store w') k = v))
       \<and> (getOrchestratorData w r = v \<and> v \<noteq> Undefined
          \<longrightarrow> (\<exists>w'. restore1 J E w = Inr w' \<and> container_get (store w') k = v))"
  using restore2_ido_wins [OF assms] restore1_ido_wins [OF assms] by blast

text \<open>
  Example for C1: the phone has \<^verbatim>\<open>1\<close> in sessionStorage and \<^verbatim>\<open>2\<close> in the orchestrator;
  after \<^verbatim>\<open>restore\<close> the container holds \<^verbatim>\<open>2\<close>.
\<close>

theorem restore_shared_value_wins_witness:
  "permanent E0 = Some cfg0
   \<and> distinct (map fst (idoEntries cfg0))
   \<and> (''phone'', ''userPhones'') \<in> set (idoEntries cfg0)
   \<and> ''phone'' \<in> set (sessionStorageKeys cfg0)
   \<and> getItem (session_storage w_stored) (KEY_PREFIX E0 @ ''phone'') = Some ''1''
   \<and> parse_text sample_json ''1'' = Some (JNum 1)
   \<and> getItem (local_storage w_stored) (orchestratorIdoKey E0 ORCH) = Some phones_text
   \<and> phones_text \<noteq> [] \<and> phones_text \<noteq> ''undefined''
   \<and> parse_text sample_json phones_text = Some (JObj [(''userPhones'', JNum 2)])
   \<and> get_property (JObj [(''userPhones'', JNum 2)]) ''userPhones'' = Inr (Value (JNum 2))
   \<and> getOrchestratorData w_stored ''userPhones'' = Value (JNum 2)
   \<and> Value (JNum 2) \<noteq> Undefined
   \<and> (\<exists>w'. restore2 sample_json E0 (Some ORCH) w_stored = Inr w'
          \<and> container_get (store w') ''phone'' = Value (JNum 2))
   \<and> (\<exists>w'. restore1 sample_json E0 w_stored = Inr w'
          \<and> container_get (store w') ''phone'' = Value (JNum 2))"
proof -
  have h1: "permanent E0 = Some cfg0" by (simp add: E0_def)
  have h2: "distinct (map fst (idoEntries cfg0))" by code_simp
  have h3: "(''phone'', ''userPhones'') \<in> set (idoEntries cfg0)" by code_simp
  have s1: "''phone'' \<in> set (sessionStorageKeys cfg0)" by code_simp
  have s2: "getItem (session_storage w_stored) (KEY_PREFIX E0 @ ''phone'') = Some ''1''"
    by code_simp
  have s3: "parse_text sample_json ''1'' = Some (JNum 1)" by code_simp
  have b1: "getItem (local_storage w_stored) (orchestratorIdoKey E0 ORCH) = Some phones_text"
    by code_simp
  have b2: "phones_text \<noteq> []" "phones_text \<noteq> ''undefined''" by code_simp+
  have b3: "parse_text sample_json phones_text = Some (JObj [(''userPhones'', JNum 2)])"
    by code_simp
  have b4: "get_property (JObj [(''userPhones'', JNum 2)]) ''userPhones'' = Inr (Value (JNum 2))"
    by simp
  have a1: "getOrchestratorData w_stored ''userPhones'' = Value (JNum 2)" by code_simp
  note t = restore_shared_value_wins [OF h1 h2 h3, where w = w_stored and orch = ORCH
      and s = phones_text and J = sample_json and idoData = "JObj [(''userPhones'', JNum 2)]"
      and v = "Value (JNum 2)"]
  from t b1 b2 b3 b4 a1
  have "\<exists>w'. restore2 sample_json E0 (Some ORCH) w_stored = Inr w'
          \<and> container_get (store w') ''phone'' = Value (JNum 2)"
    and "\<exists>w'. restore1 sample_json E0 w_stored = Inr w'
          \<and> container_get (store w') ''phone'' = Value (JNum 2)"
    by blast+
  with h1 h2 h3 s1 s2 s3 b1 b2 b3 b4 a1 show ?thesis by blast
qed

section \<open>What set writes\<close>

text \<open>
  Claim C2, set and the durable tier, as amended. For a value that can be serialised
  to the text \<open>s\<close>: \<^verbatim>\<open>set\<close> of the first implementation, which ends with
  \<^verbatim>\<open>handlePermanentStorage\<close>, on a key of the localStorage list writes \<open>s\<close> into
  sessionStorage under the prefixed key, makes the value the container's value for the
  key, and writes \<open>s\<close> into localStorage under the same prefixed key. \<^verbatim>\<open>set\<close> of the
  second implementation does the first two and leaves localStorage as it was: there the
  durable copy is made by \<^verbatim>\<open>exit\<close> and \<^verbatim>\<open>init\<close>.
\<close>

theorem set_fan_out:
  assumes "JSON_stringify J v = Inr s"
  shows "(permanent E = Some cfg \<and> k \<in> set (localStorageKeys cfg) \<longrightarrow>
            (\<exists>w'. set1 J E k v w = Inr w'
               \<and> getItem (session_storage w') (KEY_PREFIX E @ k) = Some s
               \<and> container_get (store w') k = v
               \<and> getItem (local_storage w') (KEY_PREFIX E @ k) = Some s))
       \<and> (\<exists>w'. set2 J E k v w = Inr w'
               \<and> getItem (session_storage w') (KEY_PREFIX E @ k) = Some s
               \<and> container_get (store w') k = v
               \<and> local_storage w' = local_storage w)"
proof -
  have tr: "\<And>c u. store (transfer_ido c k v u) = store u
          \<and> session_storage (transfer_ido c k v u) = session_storage u
          \<and> local_storage (transfer_ido c k v u) = local_storage u"
    by (simp add: transfer_ido_def setOrchestratorData_def emit_fields split: option.split)
  have "\<exists>w'. set1 J E k v w = Inr w'
               \<and> getItem (session_storage w') (KEY_PREFIX E @ k) = Some s
               \<and> container_get (store w') k = v
               \<and> getItem (local_storage w') (KEY_PREFIX E @ k) = Some s"
    if "permanent E = Some cfg" "k \<in> set (localStorageKeys cfg)"
  proof -
    from that(2) obtain ks where "localStorage cfg = Some ks" "k \<in> set ks"
      by (cases "localStorage cfg") (auto simp: localStorageKeys_def)
    then show ?thesis using assms that(1)
      by (simp add: set1_def handlePermanentStorage_def persist_local_def tr emit_fields
            getItem_setItem container_get_assign)
  qed
  moreover have "\<exists>w'. set2 J E k v w = Inr w'
               \<and> getItem (session_storage w') (KEY_PREFIX E @ k) = Some s
               \<and> container_get (store w') k = v
               \<and> local_storage w' = local_storage w"
    using assms by (simp add: set2_def getItem_setItem container_get_assign)
  ultimately show ?thesis by blast
qed

text \<open>Example for C2: \<^verbatim>\<open>set('login', 1)\<close> on the empty state.\<close>

theorem set_fan_out_witness:
  "JSON_stringify sample_json (Value (JNum 1)) = Inr ''1''
   \<and> permanent E0 = Some cfg0 \<and> ''login'' \<in> set (localStorageKeys cfg0)
   \<and> (\<exists>w'. set1 sample_json E0 ''login'' (Value (JNum 1)) w_empty = Inr w'
          \<and> getItem (session_storage w') (KEY_PREFIX E0 @ ''login'') = Some ''1''
          \<and> container_get (store w') ''login'' = Value (JNum 1)
          \<and> getItem (local_storage w') (KEY_PREFIX E0 @ ''login'') = Some ''1'')
   \<and> (\<exists>w'. set2 sample_json E0 ''login'' (Value (JNum 1)) w_empty = Inr w'
          \<and> getItem (session_storage w') (KEY_PREFIX E0 @ ''login'') = Some ''1''
          \<and> container_get (store w') ''login'' = Value (JNum 1)
          \<and> local_storage w' = local_storage w_empty)"
proof -
  have h1: "JSON_stringify sample_json (Value (JNum 1)) = Inr ''1''" by code_simp
  have h2: "permanent E0 = Some cfg0" by (simp add: E0_def)
  have h3: "''login'' \<in> set (localStorageKeys cfg0)" by code_simp
  note t = set_fan_out [OF h1, where E = E0 and cfg = cfg0 and k = "''login''" and w = w_empty]
  from t h1 h2 h3 show ?thesis by blast
qed

text \<open>
  Counterexample to C2 as stated: \<^verbatim>\<open>login\<close> is in the localStorage list, and after
  \<^verbatim>\<open>set('login', 1)\<close> of the second implementation localStorage has no entry for it.
\<close>

theorem set2_no_durable_write:
  "permanent E0 = Some cfg0 \<and> ''login'' \<in> set (localStorageKeys cfg0)
   \<and> set2 sample_json E0 ''login'' (Value (JNum 1)) w_empty = Inr w_login
   \<and> getItem (local_storage w_login) ''AUTH-login'' = None"
  by code_simp

section \<open>Teardown\<close>

text \<open>
  Claim C3, teardown migration. In the second implementation, let \<open>k\<close> be a key of the
  localStorage list and let \<^verbatim>\<open>set(k, v)\<close> have returned. Then \<^verbatim>\<open>exit\<close> returns normally,
  localStorage holds the serialised value under the prefixed key and sessionStorage has
  no entry under it any more. \<^verbatim>\<open>exit\<close> may be called with or without an orchestrator;
  with one, the key under which it stores the IDO record is supposed to differ from the
  prefixed key of \<open>k\<close> (the two namespaces are kept apart).
\<close>

theorem exit_moves_durable_key:
  assumes cfg: "permanent E = Some cfg"
    and k: "k \<in> set (localStorageKeys cfg)"
    and set: "set2 J E k v w = Inr w1"
    and sep: "\<forall>orc. orch = Some orc \<longrightarrow> orchestratorIdoKey E orc \<noteq> KEY_PREFIX E @ k"
  shows "\<exists>w2 s. exit2 J E orch w1 = Inr w2 \<and> JSON_stringify J v = Inr s
            \<and> getItem (local_storage w2) (KEY_PREFIX E @ k) = Some s
            \<and> getItem (session_storage w2) (KEY_PREFIX E @ k) = None"
proof -
  from set obtain s where s: "JSON_stringify J v = Inr s"
    and ses: "getItem (session_storage w1) (KEY_PREFIX E @ k) = Some s"
    by (auto simp: set2_def getItem_setItem split: sum.splits)
  let ?ks = "filter (prefix (KEY_PREFIX E)) (map fst (session_storage w1))"
  let ?w2 = "fold (exit_key E cfg) ?ks w1"
  let ?w3 = "exit_ido J E cfg orch ?w2"
  have r: "exit2 J E orch w1 = Inr (exit_clear_store cfg ?w3)"
    by (simp add: exit2_def cfg Let_def)
  have "KEY_PREFIX E @ k \<in> set (map fst (session_storage w1))"
    using ses by (metis getItem_def map_of_SomeD image_eqI fst_conv set_map)
  then have "KEY_PREFIX E @ k \<in> set ?ks" by simp
  from fold_exit_key_move [OF k, where ks = ?ks and w = w1 and s = s] this ses
  have "getItem (session_storage ?w2) (KEY_PREFIX E @ k) = None"
    and "getItem (local_storage ?w2) (KEY_PREFIX E @ k) = Some s" by simp_all
  then have "getItem (session_storage ?w3) (KEY_PREFIX E @ k) = None"
    and "getItem (local_storage ?w3) (KEY_PREFIX E @ k) = Some s"
    using exit_ido_frame [OF sep] by simp_all
  with r s show ?thesis by (simp add: exit_clear_store_frame)
qed

text \<open>Example for C3: \<^verbatim>\<open>set('login', 1)\<close>, then \<^verbatim>\<open>exit\<close> with the orchestrator.\<close>

theorem exit_moves_durable_key_witness:
  "permanent E0 = Some cfg0 \<and> ''login'' \<in> set (localStorageKeys cfg0)
   \<and> set2 sample_json E0 ''login'' (Value (JNum 1)) w_empty = Inr w_login
   \<and> orchestratorIdoKey E0 ORCH \<noteq> KEY_PREFIX E0 @ ''login''
   \<and> (\<exists>w2 s. exit2 sample_json E0 (Some ORCH) w_login = Inr w2
          \<and> JSON_stringify sample_json (Value (JNum 1)) = Inr s
          \<and> getItem (local_storage w2) (KEY_PREFIX E0 @ ''login'') = Some s
          \<and> getItem (session_storage w2) (KEY_PREFIX E0 @ ''login'') = None)"
proof -
  have h1: "permanent E0 = Some cfg0" by (simp add: E0_def)
  have h2: "''login'' \<in> set (localStorageKeys cfg0)" by code_simp
  have h3: "set2 sample_json E0 ''login'' (Value (JNum 1)) w_empty = Inr w_login" by code_simp
  have h4: "orchestratorIdoKey E0 ORCH \<noteq> KEY_PREFIX E0 @ ''login''" by code_simp
  then have h4': "\<forall>orc. Some ORCH = Some orc \<longrightarrow> orchestratorIdoKey E0 orc \<noteq> KEY_PREFIX E0 @ ''login''"
    by simp
  from exit_moves_durable_key [OF h1 h2 h3 h4'] h1 h2 h3 h4 show ?thesis by blast
qed

section \<open>Failure isolation in restore\<close>

lemma restore2_isolates:
  assumes cfg: "permanent E = Some cfg"
    and a: "a \<in> set (sessionStorageKeys cfg)" "a \<notin> set (localStorageKeys cfg)"
           "a \<notin> fst ` set (idoEntries cfg)"
    and b: "b \<notin> set (localStorageKeys cfg)" "b \<notin> fst ` set (idoEntries cfg)"
    and sa: "getItem (session_storage w) (KEY_PREFIX E @ a) = Some sa" "sa \<noteq> ''undefined''"
            "parse_text J sa = Some ja"
    and sb: "getItem (session_storage w) (KEY_PREFIX E @ b) = Some sb" "parse_text J sb = None"
  shows "\<exists>w'. restore2 J E orch w = Inr w' \<and> container_get (store w') a = Value ja
            \<and> map_of (store w') b = map_of (store w) b"
proof -
  let ?w1 = "fold (restore_local J E) (localStorageKeys cfg) w"
  let ?w2 = "fold (restore_session J E) (sessionStorageKeys cfg) ?w1"
  let ?w3 = "restore_ido J E cfg orch ?w2"
  have r: "restore2 J E orch w = Inr ?w3"
    by (simp add: restore2_def cfg Let_def)
  have a1: "getItem (session_storage ?w1) (KEY_PREFIX E @ a) = Some sa"
    using fold_restore_local_other [OF a(2)] sa(1) by simp
  have b1: "getItem (session_storage ?w1) (KEY_PREFIX E @ b) = Some sb"
       "map_of (store ?w1) b = map_of (store w) b"
    using fold_restore_local_other [OF b(1)] sb(1) by simp_all
  have a2: "map_of (store ?w2) a = Some (Plain (Value ja))"
    using fold_restore_session_valid [OF a1 sa(2,3)] a(1) by simp
  have b2: "map_of (store ?w2) b = map_of (store w) b"
    using fold_restore_session_malformed [OF b1(1) sb(2)] b1(2) by simp
  have a3: "map_of (store ?w3) a = Some (Plain (Value ja))"
    using restore_ido_other [of orch a cfg] a(3) a2 by simp
  have b3: "map_of (store ?w3) b = map_of (store w) b"
    using restore_ido_other [of orch b cfg] b(2) b2 by simp
  from r a3 b3 show ?thesis by (simp add: container_get_def)
qed

lemma restore1_isolates:
  assumes cfg: "permanent E = Some cfg"
    and a: "a \<in> set (sessionStorageKeys cfg)" "a \<notin> set (localStorageKeys cfg)"
           "a \<notin> fst ` set (idoEntries cfg)"
    and b: "b \<notin> set (localStorageKeys cfg)" "b \<notin> fst ` set (idoEntries cfg)"
    and sa: "getItem (session_storage w) (KEY_PREFIX E @ a) = Some sa"
            "parse_text J sa = Some ja"
    and sb: "getItem (session_storage w) (KEY_PREFIX E @ b) = Some sb" "parse_text J sb = None"
  shows "\<exists>w'. restore1 J E w = Inr w' \<and> container_get (store w') a = Value ja
            \<and> map_of (store w') b = map_of (store w) b"
proof -
  from a(1) obtain ss where ss: "sessionStorage cfg = Some ss" "a \<in> set ss"
    by (cases "sessionStorage cfg") (auto simp: sessionStorageKeys_def)
  let ?w1 = "fold (restore1_session J E False) (map fst (store w)) w"
  let ?w2 = "fold (restore1_session J E True) ss ?w1"
  let ?w3 = "case localStorage cfg of None \<Rightarrow> ?w2 | Some ks \<Rightarrow> fold (restore1_local J E) ks ?w2"
  let ?w4 = "case ido cfg of None \<Rightarrow> ?w3 | Some m \<Rightarrow> fold restore1_ido m ?w3"
  have r: "restore1 J E w = Inr ?w4"
    by (simp add: restore1_def cfg ss Let_def)
  have a1: "getItem (session_storage ?w1) (KEY_PREFIX E @ a) = Some sa"
    and b1: "getItem (session_storage ?w1) (KEY_PREFIX E @ b) = Some sb"
    using sa(1) sb(1) by (simp_all add: fold_restore1_session_frame)
  have a2: "container_get (store ?w2) a = Value ja"
    using fold_restore1_session_valid [OF a1 sa(2)] ss(2) by simp
  have b2: "map_of (store ?w2) b = map_of (store w) b"
    using fold_restore1_session_malformed [OF b1 sb(2)]
          fold_restore1_session_malformed [OF sb] by simp
  have a3: "map_of (store ?w3) a = map_of (store ?w2) a"
    and b3: "map_of (store ?w3) b = map_of (store ?w2) b"
    using a(2) b(1)
    by (auto simp: localStorageKeys_def fold_restore1_local_other split: option.split)
  have a4: "map_of (store ?w4) a = map_of (store ?w3) a"
    and b4: "map_of (store ?w4) b = map_of (store ?w3) b"
    using a(3) b(2)
    by (auto simp: idoEntries_def fold_restore1_ido_other split: option.split)
  have "container_get (store ?w4) a = Value ja"
    using a2 a3 a4 by (simp add: container_get_def)
  moreover have "map_of (store ?w4) b = map_of (store w) b"
    using b2 b3 b4 by simp
  ultimately show ?thesis using r by simp
qed

text \<open>
  Claim C4, failure isolation in restore. Let \<open>a\<close> and \<open>b\<close> be keys of the sessionStorage
  list that are in no other tier (not in the localStorage list, not shared). Let
  sessionStorage hold valid JSON for \<open>a\<close> (a text other than \<^verbatim>\<open>undefined\<close> that parses to
  \<open>ja\<close>) and a text that does not parse for \<open>b\<close>. Then \<^verbatim>\<open>restore\<close> of either implementation
  returns normally, the container's value for \<open>a\<close> is \<open>ja\<close>, and the property \<open>b\<close> of the
  store is what it was before the call.
\<close>

theorem restore_isolates_failure:
  assumes "permanent E = Some cfg"
    and "a \<in> set (sessionStorageKeys cfg)" "a \<notin> set (localStorageKeys cfg)"
        "a \<notin> fst ` set (idoEntries cfg)"
    and "b \<in> set (sessionStorageKeys cfg)" "b \<notin> set (localStorageKeys cfg)"
        "b \<notin> fst ` set (idoEntries cfg)"
    and "getItem (session_storage w) (KEY_PREFIX E @ a) = Some sa" "sa \<noteq> ''undefined''"
        "parse_text J sa = Some ja"
    and "getItem (session_storage w) (KEY_PREFIX E @ b) = Some sb" "parse_text J sb = None"
  shows "(\<exists>w'. restore2 J E orch w = Inr w' \<and> container_get (store w') a = Value ja
            \<and> map_of (store w') b = map_of (store w) b)
       \<and> (\<exists>w'. restore1 J E w = Inr w' \<and> container_get (store w') a = Value ja
            \<and> map_of (store w') b = map_of (store w) b)"
  using restore2_isolates [OF assms(1-4) assms(6-12)]
        restore1_isolates [OF assms(1-4) assms(6-8) assms(10-12)]
  by blast

text \<open>
  Example for C4: the profile (\<^verbatim>\<open>1\<close> in sessionStorage) is restored, the draft (a
  malformed text in sessionStorage) keeps the value \<^verbatim>\<open>true\<close> it had.
\<close>

theorem restore_isolates_failure_witness:
  "permanent E0 = Some cfg0
   \<and> ''profile'' \<in> set (sessionStorageKeys cfg0) \<and> ''profile'' \<notin> set (localStorageKeys cfg0)
   \<and> ''profile'' \<notin> fst ` set (idoEntries cfg0)
   \<and> ''draft'' \<in> set (sessionStorageKeys cfg0) \<and> ''draft'' \<notin> set (localStorageKeys cfg0)
   \<and> ''draft'' \<notin> fst ` set (idoEntries cfg0)
   \<and> getItem (session_storage w_stored) (KEY_PREFIX E0 @ ''profile'') = Some ''1''
   \<and> ''1'' \<noteq> ''undefined'' \<and> parse_text sample_json ''1'' = Some (JNum 1)
   \<and> getItem (session_storage w_stored) (KEY_PREFIX E0 @ ''draft'') = Some ''{bad''
   \<and> parse_text sample_json ''{bad'' = None
   \<and> map_of (store w_stored) ''draft'' = Some (Plain (Value (JBool True)))
   \<and> (\<exists>w'. restore2 sample_json E0 (Some ORCH) w_stored = Inr w'
          \<and> container_get (store w') ''profile'' = Value (JNum 1)
          \<and> map_of (store w') ''draft'' = map_of (store w_stored) ''draft'')
   \<and> (\<exists>w'. restore1 sample_json E0 w_stored = Inr w'
          \<and> container_get (store w') ''profile'' = Value (JNum 1)
          \<and> map_of (store w') ''draft'' = map_of (store w_stored) ''draft'')"
proof -
  have h1: "permanent E0 = Some cfg0" by (simp add: E0_def)
  have a1: "''profile'' \<in> set (sessionStorageKeys cfg0)" by code_simp
  have a2: "''profile'' \<notin> set (localStorageKeys cfg0)" by code_simp
  have a3: "''profile'' \<notin> fst ` set (idoEntries cfg0)" by code_simp
  have b1: "''draft'' \<in> set (sessionStorageKeys cfg0)" by code_simp
  have b2: "''draft'' \<notin> set (localStorageKeys cfg0)" by code_simp
  have b3: "''draft'' \<notin> fst ` set (idoEntries cfg0)" by code_simp
  have sa1: "getItem (session_storage w_stored) (KEY_PREFIX E0 @ ''profile'') = Some ''1''"
    by code_simp
  have sa2: "''1'' \<noteq> ''undefined''" by simp
  have sa3: "parse_text sample_json ''1'' = Some (JNum 1)" by code_simp
  have sb1: "getItem (session_storage w_stored) (KEY_PREFIX E0 @ ''draft'') = Some ''{bad''"
    by code_simp
  have sb2: "parse_text sample_json ''{bad'' = None" by code_simp
  have d: "map_of (store w_stored) ''draft'' = Some (Plain (Value (JBool True)))" by code_simp
  note t = restore_isolates_failure [OF h1 a1 a2 a3 b1 b2 b3 sa1 sa2 sa3 sb1 sb2,
      where orch = "Some ORCH"]
  from t h1 a1 a2 a3 b1 b2 b3 sa1 sa2 sa3 sb1 sb2 d show ?thesis by blast
qed

section \<open>The passes of init\<close>

lemma init_local_returns:
  "\<not> signal_at (store w) k \<Longrightarrow> \<exists>w'. init_local J E k w = Inr w' \<and> store w' = store w"
  by (auto simp: signal_at_def valueToStore_def init_local_def emit_fields
           split: option.splits cell.splits sum.splits)

lemma init_session_returns:
  "\<not> signal_at (store w) k \<Longrightarrow> \<exists>w'. init_session J E k w = Inr w' \<and> store w' = store w"
  by (auto simp: signal_at_def valueToStore_def init_session_def emit_fields
           split: option.splits cell.splits sum.splits)

lemma forEach_init_local_returns:
  "\<forall>k\<in>set ks. \<not> signal_at (store w) k \<Longrightarrow>
     \<exists>w'. forEach (init_local J E) ks w = Inr w' \<and> store w' = store w"
proof (induction ks arbitrary: w)
  case Nil
  then show ?case by simp
next
  case (Cons k ks)
  then obtain w1 where w1: "init_local J E k w = Inr w1" "store w1 = store w"
    using init_local_returns [of w k J E] by auto
  with Cons.prems have "\<forall>k\<in>set ks. \<not> signal_at (store w1) k" by simp
  from Cons.IH [OF this] w1 show ?case by auto
qed

lemma forEach_init_session_returns:
  "\<forall>k\<in>set ks. \<not> signal_at (store w) k \<Longrightarrow>
     \<exists>w'. forEach (init_session J E) ks w = Inr w' \<and> store w' = store w"
proof (induction ks arbitrary: w)
  case Nil
  then show ?case by simp
next
  case (Cons k ks)
  then obtain w1 where w1: "init_session J E k w = Inr w1" "store w1 = store w"
    using init_session_returns [of w k J E] by auto
  with Cons.prems have "\<forall>k\<in>set ks. \<not> signal_at (store w1) k" by simp
  from Cons.IH [OF this] w1 show ?case by auto
qed

lemma forEach_init_prepare_returns:
  "\<forall>k\<in>fst ` set m. \<not> signal_at (store w) k \<Longrightarrow> \<exists>d'. forEach (init_prepare w) m d = Inr d'"
proof (induction m arbitrary: d)
  case Nil
  then show ?case by simp
next
  case (Cons e m)
  then have "\<not> signal_at (store w) (fst e)" by simp
  then have "\<exists>d1. init_prepare w e d = Inr d1"
    by (auto simp: signal_at_def valueToStore_def init_prepare_def
             split: option.splits cell.splits)
  then obtain d1 where d1: "init_prepare w e d = Inr d1" by blast
  from Cons.prems have "\<forall>k\<in>fst ` set m. \<not> signal_at (store w) k" by simp
  from Cons.IH [OF this, of d1] d1 show ?case by auto
qed

lemma init_ido_returns:
  "orch = None \<or> (\<forall>k\<in>fst ` set (idoEntries cfg). \<not> signal_at (store w) k) \<Longrightarrow>
     \<exists>w'. init_ido J E cfg orch w = Inr w'"
  using forEach_init_prepare_returns [of "idoEntries cfg" w "[]"]
  by (cases orch) (auto simp: init_ido_def)

lemma init2_returns:
  assumes "\<forall>k\<in>set (init_keys E orch). \<not> signal_at (store w) k"
  shows "\<exists>w'. init2 J E orch w = Inr w'"
proof (cases "permanent E")
  case None
  then show ?thesis by (simp add: init2_def)
next
  case (Some cfg)
  with assms have l: "\<forall>k\<in>set (localStorageKeys cfg). \<not> signal_at (store w) k"
    and s: "\<forall>k\<in>set (sessionStorageKeys cfg). \<not> signal_at (store w) k"
    and i: "orch = None \<or> (\<forall>k\<in>fst ` set (idoEntries cfg). \<not> signal_at (store w) k)"
    by (auto simp: init_keys_def split: option.splits)
  from forEach_init_local_returns [OF l] obtain w1
    where w1: "forEach (init_local J E) (localStorageKeys cfg) w = Inr w1" "store w1 = store w"
    by blast
  from s w1 have "\<forall>k\<in>set (sessionStorageKeys cfg). \<not> signal_at (store w1) k" by simp
  from forEach_init_session_returns [OF this] obtain w2
    where w2: "forEach (init_session J E) (sessionStorageKeys cfg) w1 = Inr w2" "store w2 = store w1"
    by blast
  from i w1 w2 have "orch = None \<or> (\<forall>k\<in>fst ` set (idoEntries cfg). \<not> signal_at (store w2) k)"
    by simp
  from init_ido_returns [OF this] w1 w2 show ?thesis
    by (simp add: init2_def Some)
qed

text \<open>
  The call of a signal object in \<^verbatim>\<open>init\<close>: on a store whose durable key is a signal
  object, \<^verbatim>\<open>init\<close> ends with the \<^verbatim>\<open>TypeError\<close> of that call, whatever the signal holds.
\<close>

lemma init2_signal_call_throws:
  "init2 sample_json E0 None w_signal = Inl TypeError"
  by code_simp

section \<open>The sentinel texts\<close>

text \<open>
  The text \<^verbatim>\<open>undefined\<close> in the second implementation. On every read of a key (\<^verbatim>\<open>get\<close>,
  the sessionStorage pass and the localStorage pass of \<^verbatim>\<open>restore\<close>) the stored text
  \<^verbatim>\<open>undefined\<close> gives the outcome of a missing entry: it does not depend on the parser,
  and the state, the container included, is unchanged.
\<close>

lemma undefined_text_skipped:
  "(getItem (session_storage w) (KEY_PREFIX E @ k) = None
      \<or> getItem (session_storage w) (KEY_PREFIX E @ k) = Some ''undefined''
    \<longrightarrow> get2 J E k d w = (default_or_null d, w) \<and> restore_session J E k w = w)
   \<and> (getItem (local_storage w) (KEY_PREFIX E @ k) = None
      \<or> getItem (local_storage w) (KEY_PREFIX E @ k) = Some ''undefined''
    \<longrightarrow> restore_local J E k w = w)"
  by (auto simp: get2_def restore_session_def restore_local_def)


section \<open>Serialisation errors\<close>

text \<open>
  Claim C6, serialisation errors, as amended. For a value that cannot be JSON-encoded,
  \<^verbatim>\<open>set\<close> of both implementations ends with the \<^verbatim>\<open>TypeError\<close>. \<^verbatim>\<open>init\<close> and \<^verbatim>\<open>exit\<close> of the
  second implementation recover. In \<^verbatim>\<open>init\<close>, the step for a key whose plain property
  cannot be encoded returns normally, with one message on the console and the storage
  areas as they were, and so does the write of an IDO record with such a field; \<^verbatim>\<open>init\<close>
  as a whole returns normally when no property it reads is a signal object. \<^verbatim>\<open>exit\<close>
  serialises only inside \<^verbatim>\<open>try\<close> and always returns normally.
\<close>

theorem serialization_error_handling:
  "set2 J E k NotSerializable w = Inl TypeError
   \<and> set1 J E k NotSerializable w = Inl TypeError
   \<and> (\<exists>w'. exit2 J E orch w = Inr w')
   \<and> (map_of (store w) k = Some (Plain NotSerializable) \<longrightarrow>
        init_local J E k w = Inr (emit (Init_ErrorLocalStorage k) w)
        \<and> init_session J E k w = Inr (emit (Init_ErrorSessionStorage k) w))
   \<and> (NotSerializable \<in> snd ` set idoData \<longrightarrow>
        store_ido J E orc d idoData w = emit d w)
   \<and> ((\<forall>k\<in>set (init_keys E orch). \<not> signal_at (store w) k) \<longrightarrow>
        (\<exists>w'. init2 J E orch w = Inr w'))"
proof -
  have "store_ido J E orc d idoData w = emit d w" if "NotSerializable \<in> snd ` set idoData"
  proof -
    from that have "idoData \<noteq> []" by auto
    with that show ?thesis by (simp add: store_ido_def stringify_object_def)
  qed
  moreover have "\<exists>w'. exit2 J E orch w = Inr w'"
    by (simp add: exit2_def Let_def split: option.split)
  moreover have "map_of (store w) k = Some (Plain NotSerializable) \<longrightarrow>
        init_local J E k w = Inr (emit (Init_ErrorLocalStorage k) w)
        \<and> init_session J E k w = Inr (emit (Init_ErrorSessionStorage k) w)"
    by (simp add: init_local_def init_session_def valueToStore_def JSON_stringify_def)
  ultimately show ?thesis
    using init2_returns [of E orch w J]
    by (simp add: set2_def set1_def JSON_stringify_def)
qed

text \<open>
  Example for C6: the login and the phone hold an object with a cycle, as plain
  properties.
\<close>

theorem serialization_error_handling_witness:
  "map_of (store w_cyclic) ''login'' = Some (Plain NotSerializable)
   \<and> NotSerializable \<in> snd ` set [(''userPhones'', NotSerializable)]
   \<and> filter (signal_at (store w_cyclic)) (init_keys E0 (Some ORCH)) = []
   \<and> set2 sample_json E0 ''login'' NotSerializable w_cyclic = Inl TypeError
   \<and> set1 sample_json E0 ''login'' NotSerializable w_cyclic = Inl TypeError
   \<and> (\<exists>w'. exit2 sample_json E0 (Some ORCH) w_cyclic = Inr w')
   \<and> init_local sample_json E0 ''login'' w_cyclic
        = Inr (emit (Init_ErrorLocalStorage ''login'') w_cyclic)
   \<and> init_session sample_json E0 ''login'' w_cyclic
        = Inr (emit (Init_ErrorSessionStorage ''login'') w_cyclic)
   \<and> store_ido sample_json E0 ORCH Init_ErrorStoringIdo [(''userPhones'', NotSerializable)] w_cyclic
        = emit Init_ErrorStoringIdo w_cyclic
   \<and> (\<exists>w'. init2 sample_json E0 (Some ORCH) w_cyclic = Inr w')"
proof -
  have h1: "map_of (store w_cyclic) ''login'' = Some (Plain NotSerializable)" by code_simp
  have h2: "NotSerializable \<in> snd ` set [(''userPhones'', NotSerializable)]" by simp
  have h3: "filter (signal_at (store w_cyclic)) (init_keys E0 (Some ORCH)) = []" by code_simp
  then have h3': "\<forall>k\<in>set (init_keys E0 (Some ORCH)). \<not> signal_at (store w_cyclic) k"
    by (simp add: filter_empty_conv)
  note t = serialization_error_handling [where J = sample_json and E = E0 and k = "''login''"
      and w = w_cyclic and orch = "Some ORCH" and orc = ORCH and d = Init_ErrorStoringIdo
      and idoData = "[(''userPhones'', NotSerializable)]"]
  from t h1 h2 h3 h3' show ?thesis by blast
qed

text \<open>
  Counterexample to C6 as stated: \<^verbatim>\<open>init\<close> meets a value it cannot encode in each of
  its three passes (the durable key \<^verbatim>\<open>login\<close>, the session key \<^verbatim>\<open>phone\<close>, the IDO
  record) and returns normally, with the three messages on the console and nothing
  stored.
\<close>

theorem init_recovers_from_serialization_error:
  "permanent E0 = Some cfg0 \<and> ''login'' \<in> set (localStorageKeys cfg0)
   \<and> map_of (store w_cyclic) ''login'' = Some (Plain NotSerializable)
   \<and> map_of (store w_cyclic) ''phone'' = Some (Plain NotSerializable)
   \<and> init2 sample_json E0 (Some ORCH) w_cyclic
     = Inr (w_cyclic\<lparr>console :=
              [Init_ErrorLocalStorage ''login'', Init_Skipping ''profile'',
               Init_ErrorSessionStorage ''phone'', Init_Skipping ''draft'',
               Init_ErrorStoringIdo]\<rparr>)"
  by code_simp

section \<open>Restore without a configuration\<close>

text \<open>
  Claim C7, restore without a configuration, as amended. In the second implementation
  \<^verbatim>\<open>restore\<close> on an engine without configuration returns normally and changes nothing
  but the console, which gets one warning. In the first implementation \<^verbatim>\<open>restore\<close> on
  such an engine returns normally too, and changes nothing when sessionStorage has no
  entry for any key of the store; an entry it finds for such a key it still restores.
\<close>

theorem zero_config_restore:
  assumes "permanent E = None"
  shows "restore2 J E orch w = Inr (w\<lparr>console := console w @ [Restore_NoPermanentConfig]\<rparr>)
     \<and> (\<exists>w'. restore1 J E w = Inr w')
     \<and> ((\<forall>k\<in>fst ` set (store w). getItem (session_storage w) (KEY_PREFIX E @ k) = None)
          \<longrightarrow> restore1 J E w = Inr w)"
  using assms fold_restore1_session_absent [of "map fst (store w)" w E J False]
  by (auto simp: restore2_def emit_def restore1_def Let_def)

text \<open>Example for C7: an engine without configuration, nothing stored.\<close>

theorem zero_config_restore_witness:
  "permanent E_plain = None
   \<and> fst ` set (store w_fresh) = {''profile''}
   \<and> getItem (session_storage w_fresh) (KEY_PREFIX E_plain @ ''profile'') = None
   \<and> restore2 sample_json E_plain (Some ORCH) w_fresh
        = Inr (w_fresh\<lparr>console := console w_fresh @ [Restore_NoPermanentConfig]\<rparr>)
   \<and> (\<exists>w'. restore1 sample_json E_plain w_fresh = Inr w')
   \<and> restore1 sample_json E_plain w_fresh = Inr w_fresh"
proof -
  have h1: "permanent E_plain = None" by (simp add: E_plain_def)
  have h2: "fst ` set (store w_fresh) = {''profile''}" by (simp add: w_fresh_def)
  have h3: "getItem (session_storage w_fresh) (KEY_PREFIX E_plain @ ''profile'') = None"
    by (simp add: w_fresh_def getItem_def)
  note t = zero_config_restore [OF h1, where w = w_fresh and J = sample_json and orch = "Some ORCH"]
  from t h1 h2 h3 show ?thesis by simp
qed

text \<open>
  Counterexample to C7 as stated: the first implementation, an engine without
  configuration, the store holding \<^verbatim>\<open>null\<close> for the profile and sessionStorage the text
  \<^verbatim>\<open>1\<close>. After \<^verbatim>\<open>restore\<close> the container holds \<^verbatim>\<open>1\<close>.
\<close>

theorem restore1_without_config_hydrates:
  "permanent E_plain = None
   \<and> container_get (store w_session) ''profile'' = Value JNull
   \<and> restore1 sample_json E_plain w_session
       = Inr (w_session\<lparr>store := [(''profile'', Plain (Value (JNum 1)))]\<rparr>)
   \<and> container_get [(''profile'', Plain (Value (JNum 1)))] ''profile'' = Value (JNum 1)"
  by code_simp

section \<open>What get writes\<close>

text \<open>
  Claim C8, get writes the container. In the second implementation, when sessionStorage
  holds valid JSON for a key (a text other than \<^verbatim>\<open>undefined\<close> that parses to \<open>j\<close>),
  \<^verbatim>\<open>get\<close> returns \<open>j\<close> and leaves a state that differs from the one before in the store
  only: the property is written with \<open>j\<close>, through the signal when it is one, as a plain
  value otherwise. And after \<^verbatim>\<open>getAll\<close> the container's value for every such key of the
  store is the parsed value.
\<close>

theorem get_writes_container:
  assumes "getItem (session_storage w) (KEY_PREFIX E @ k) = Some s" "s \<noteq> ''undefined''"
    "parse_text J s = Some j"
  shows "get2 J E k d w = (Value j, w\<lparr>store := assign (store w) k (Value j)\<rparr>)
     \<and> map_of (assign (store w) k (Value j)) k
         = Some (case map_of (store w) k of
                   Some (Signal _) \<Rightarrow> Signal (Value j) | _ \<Rightarrow> Plain (Value j))
     \<and> (k \<in> fst ` set (store w) \<longrightarrow> container_get (store (snd (getAll2 J E w))) k = Value j)"
proof -
  have "container_get (store (snd (getAll2 J E w))) k = Value j" if "k \<in> fst ` set (store w)"
    unfolding getAll2_def
    using fold_getAll_step_valid [of "([], w)" E k s J j "map fst (store w)"] assms that by simp
  then show ?thesis
    using get2_valid [OF assms] by (simp add: map_of_assign)
qed

text \<open>
  Example for C8: the phone is a signal holding \<^verbatim>\<open>null\<close>, sessionStorage has \<^verbatim>\<open>1\<close> for
  it; \<^verbatim>\<open>get\<close> and \<^verbatim>\<open>getAll\<close> leave the signal holding \<^verbatim>\<open>1\<close>.
\<close>

theorem get_writes_container_witness:
  "getItem (session_storage w_stored) (KEY_PREFIX E0 @ ''phone'') = Some ''1''
   \<and> ''1'' \<noteq> ''undefined'' \<and> parse_text sample_json ''1'' = Some (JNum 1)
   \<and> ''phone'' \<in> fst ` set (store w_stored)
   \<and> map_of (store w_stored) ''phone'' = Some (Signal (Value JNull))
   \<and> get2 sample_json E0 ''phone'' Undefined w_stored
        = (Value (JNum 1), w_stored\<lparr>store := assign (store w_stored) ''phone'' (Value (JNum 1))\<rparr>)
   \<and> map_of (assign (store w_stored) ''phone'' (Value (JNum 1))) ''phone''
        = Some (Signal (Value (JNum 1)))
   \<and> container_get (store (snd (getAll2 sample_json E0 w_stored))) ''phone'' = Value (JNum 1)"
proof -
  have h1: "getItem (session_storage w_stored) (KEY_PREFIX E0 @ ''phone'') = Some ''1''"
    by code_simp
  have h2: "''1'' \<noteq> ''undefined''" by simp
  have h3: "parse_text sample_json ''1'' = Some (JNum 1)" by code_simp
  have h4: "''phone'' \<in> fst ` set (store w_stored)" by code_simp
  have h5: "map_of (store w_stored) ''phone'' = Some (Signal (Value JNull))" by code_simp
  note t = get_writes_container [OF h1 h2 h3, where d = Undefined]
  from t h1 h2 h3 h4 h5 show ?thesis by simp
qed

section \<open>Calls without an orchestrator\<close>

text \<open>
  Claim C9, no orchestrator argument. In the second implementation, when \<^verbatim>\<open>exit\<close>,
  \<^verbatim>\<open>init\<close> or \<^verbatim>\<open>restore\<close> is called without an orchestrator, its IDO step is the identity
  on the whole state (container, both storage areas, console: nothing is written,
  nothing is logged) and raises no error, and the outcome of the call is the outcome of
  the same call on the engine with the IDO mapping taken out of its configuration.
  \<^verbatim>\<open>exit\<close> and \<^verbatim>\<open>restore\<close> return normally; so does \<^verbatim>\<open>init\<close> when no property of its
  localStorage and sessionStorage lists is a signal object. This holds for every
  configuration, so for one with a non-empty IDO mapping.
\<close>

theorem no_orchestrator_skips_ido:
  "exit_ido J E cfg None w = w \<and> init_ido J E cfg None w = Inr w
   \<and> restore_ido J E cfg None w = w
   \<and> exit2 J E None w = exit2 J (without_ido E) None w
   \<and> init2 J E None w = init2 J (without_ido E) None w
   \<and> restore2 J E None w = restore2 J (without_ido E) None w
   \<and> (\<exists>w'. exit2 J E None w = Inr w')
   \<and> (\<exists>w'. restore2 J E None w = Inr w')
   \<and> ((\<forall>k\<in>set (init_keys E None). \<not> signal_at (store w) k) \<longrightarrow>
        (\<exists>w'. init2 J E None w = Inr w'))"
proof -
  have k: "\<And>cfg. localStorageKeys (cfg\<lparr>ido := None\<rparr>) = localStorageKeys cfg"
      "\<And>cfg. sessionStorageKeys (cfg\<lparr>ido := None\<rparr>) = sessionStorageKeys cfg"
    by (simp_all add: localStorageKeys_def sessionStorageKeys_def)
  have pfx: "KEY_PREFIX (without_ido E) = KEY_PREFIX E"
    by (simp add: without_ido_def)
  have e: "\<And>cfg. exit_key (without_ido E) (cfg\<lparr>ido := None\<rparr>) = exit_key E cfg"
    unfolding exit_key_def pfx k by (rule refl)
  have f: "restore_local J (without_ido E) = restore_local J E"
      "restore_session J (without_ido E) = restore_session J E"
      "init_local J (without_ido E) = init_local J E"
      "init_session J (without_ido E) = init_session J E"
    unfolding restore_local_def restore_session_def init_local_def init_session_def pfx
    by (rule refl)+
  have steps: "exit_ido J E cfg None w = w \<and> init_ido J E cfg None w = Inr w
      \<and> restore_ido J E cfg None w = w"
    by (simp add: exit_ido_def init_ido_def restore_ido_def)
  have i: "(\<forall>k\<in>set (init_keys E None). \<not> signal_at (store w) k) \<longrightarrow>
        (\<exists>w'. init2 J E None w = Inr w')"
    using init2_returns [of E None w J] by blast
  show ?thesis
  proof (cases "permanent E")
    case None
    then have "without_ido E = E" by (cases E) (simp add: without_ido_def)
    with steps i show ?thesis by (simp add: exit2_def restore2_def None)
  next
    case (Some c)
    then have pw: "permanent (without_ido E) = Some (c\<lparr>ido := None\<rparr>)"
      by (simp add: without_ido_def)
    have c: "exit_clear_store (c\<lparr>ido := None\<rparr>) = exit_clear_store c"
      unfolding exit_clear_store_def k by (rule refl)
    have x: "exit2 J E None w = exit2 J (without_ido E) None w"
      by (simp add: exit2_def Some pw pfx Let_def k e c exit_ido_def)
    have r: "restore2 J E None w = restore2 J (without_ido E) None w"
      by (simp add: restore2_def Some pw Let_def k f restore_ido_def)
    have ii: "\<And>E' c' x. init_ido J E' c' None x = Inr x"
      by (simp add: init_ido_def)
    have n: "init2 J E None w = init2 J (without_ido E) None w"
      unfolding init2_def Some pw f ii k [of c] option.case by (rule refl)
    have "\<exists>w'. exit2 J E None w = Inr w'" "\<exists>w'. restore2 J E None w = Inr w'"
      by (simp_all add: exit2_def restore2_def Some Let_def)
    with steps i x r n show ?thesis by blast
  qed
qed

text \<open>
  Example for C9: the phone is shared and the orchestrator's record holds \<^verbatim>\<open>2\<close> for it;
  \<^verbatim>\<open>restore\<close> without the orchestrator leaves the phone at the \<^verbatim>\<open>1\<close> of sessionStorage,
  the record in localStorage and the console as they were. And \<^verbatim>\<open>init\<close> without the
  orchestrator on a store with the plain login property returns normally.
\<close>

theorem no_orchestrator_skips_ido_witness:
  "idoEntries cfg0 \<noteq> []
   \<and> restore_ido sample_json E0 cfg0 None w_stored = w_stored
   \<and> restore2 sample_json E0 None w_stored = restore2 sample_json (without_ido E0) None w_stored
   \<and> (\<exists>w'. restore2 sample_json E0 None w_stored = Inr w'
          \<and> container_get (store w') ''phone'' = Value (JNum 1)
          \<and> getItem (local_storage w') (orchestratorIdoKey E0 ORCH) = Some phones_text)
   \<and> filter (signal_at (store w_login)) (init_keys E0 None) = []
   \<and> init_ido sample_json E0 cfg0 None w_login = Inr w_login
   \<and> init2 sample_json E0 None w_login = init2 sample_json (without_ido E0) None w_login
   \<and> (\<exists>w'. init2 sample_json E0 None w_login = Inr w')"
proof -
  have h: "idoEntries cfg0 \<noteq> []" by code_simp
  have r: "restore2 sample_json (without_ido E0) None w_stored
     = Inr (w_stored\<lparr>store := [(''profile'', Plain (Value (JNum 1))),
                               (''phone'', Plain (Value (JNum 1))),
                               (''login'', Plain (Value JNull)),
                               (''draft'', Plain (Value (JBool True)))],
                     session_storage := [(''AUTH-profile'', ''1''), (''AUTH-phone'', ''1''),
                                         (''AUTH-draft'', ''{bad''), (''AUTH-login'', ''{bad'')],
                     console := [Restore_ErrorLocalStorage ''login'',
                                 Restore_ErrorSessionStorage ''draft'']\<rparr>)"
    by code_simp
  have c: "container_get [(''profile'', Plain (Value (JNum 1))),
                          (''phone'', Plain (Value (JNum 1))),
                          (''login'', Plain (Value JNull)),
                          (''draft'', Plain (Value (JBool True)))] ''phone'' = Value (JNum 1)"
    by code_simp
  have l: "getItem (local_storage w_stored) (orchestratorIdoKey E0 ORCH) = Some phones_text"
    by code_simp
  have g: "filter (signal_at (store w_login)) (init_keys E0 None) = []" by code_simp
  then have g': "\<forall>k\<in>set (init_keys E0 None). \<not> signal_at (store w_login) k"
    by (simp add: filter_empty_conv)
  note t = no_orchestrator_skips_ido [where J = sample_json and E = E0 and cfg = cfg0
      and w = w_stored]
  note u = no_orchestrator_skips_ido [where J = sample_json and E = E0 and cfg = cfg0
      and w = w_login]
  from u g' have u': "init_ido sample_json E0 cfg0 None w_login = Inr w_login"
      "init2 sample_json E0 None w_login = init2 sample_json (without_ido E0) None w_login"
      "\<exists>w'. init2 sample_json E0 None w_login = Inr w'"
    by blast+
  from t h r c l g u' show ?thesis by simp
qed

section \<open>The durable pass of restore\<close>

text \<open>
  Claim C10, the durable pass copies before it parses. In the second implementation, let
  \<open>k\<close> be a key of the localStorage list whose entry in localStorage is a text \<open>s\<close> other
  than \<^verbatim>\<open>undefined\<close>. The step of the durable pass for \<open>k\<close> puts \<open>s\<close> into sessionStorage
  under the prefixed key, whether \<open>s\<close> parses or not. When the IDO step does not restore
  \<open>k\<close> (no orchestrator is passed, or \<open>k\<close> is not shared), \<^verbatim>\<open>restore\<close> returns normally
  with \<open>s\<close> in sessionStorage under the prefixed key, and if \<open>s\<close> is malformed the
  property \<open>k\<close> of the store is what it was before the call.
\<close>

theorem restore_mirrors_durable_text:
  assumes cfg: "permanent E = Some cfg"
    and k: "k \<in> set (localStorageKeys cfg)"
    and s: "getItem (local_storage w) (KEY_PREFIX E @ k) = Some s" "s \<noteq> ''undefined''"
    and noido: "orch = None \<or> k \<notin> fst ` set (idoEntries cfg)"
  shows "getItem (session_storage (restore_local J E k w)) (KEY_PREFIX E @ k) = Some s
     \<and> (\<exists>w'. restore2 J E orch w = Inr w'
            \<and> getItem (session_storage w') (KEY_PREFIX E @ k) = Some s
            \<and> (parse_text J s = None \<longrightarrow> map_of (store w') k = map_of (store w) k))"
proof -
  let ?w1 = "fold (restore_local J E) (localStorageKeys cfg) w"
  let ?w2 = "fold (restore_session J E) (sessionStorageKeys cfg) ?w1"
  let ?w3 = "restore_ido J E cfg orch ?w2"
  have step: "getItem (session_storage (restore_local J E k w)) (KEY_PREFIX E @ k) = Some s"
    using s by (simp add: restore_local_def Let_def emit_fields getItem_setItem split: sum.split)
  have r: "restore2 J E orch w = Inr ?w3"
    by (simp add: restore2_def cfg Let_def)
  have s1: "getItem (session_storage ?w1) (KEY_PREFIX E @ k) = Some s"
    using fold_restore_local_mirror [OF s] k by simp
  then have s2: "getItem (session_storage ?w2) (KEY_PREFIX E @ k) = Some s"
    by (simp add: fold_restore_session_frame)
  then have s3: "getItem (session_storage ?w3) (KEY_PREFIX E @ k) = Some s"
    using restore_ido_other [OF noido] by simp
  have st: "map_of (store ?w3) k = map_of (store w) k" if bad: "parse_text J s = None"
  proof -
    have "map_of (store ?w1) k = map_of (store w) k"
      using fold_restore_local_malformed [OF s bad] by simp
    moreover have "map_of (store ?w2) k = map_of (store ?w1) k"
      using fold_restore_session_malformed [OF s1 bad] .
    moreover have "map_of (store ?w3) k = map_of (store ?w2) k"
      using restore_ido_other [OF noido] by simp
    ultimately show ?thesis by simp
  qed
  from step r s3 st show ?thesis by simp
qed

text \<open>
  Example for C10: localStorage holds a malformed text for the login and sessionStorage
  nothing; after \<^verbatim>\<open>restore\<close> sessionStorage holds the malformed text and the login
  property is unchanged.
\<close>

theorem restore_mirrors_durable_text_witness:
  "permanent E0 = Some cfg0 \<and> ''login'' \<in> set (localStorageKeys cfg0)
   \<and> getItem (local_storage w_stored) (KEY_PREFIX E0 @ ''login'') = Some ''{bad''
   \<and> ''{bad'' \<noteq> ''undefined''
   \<and> ''login'' \<notin> fst ` set (idoEntries cfg0)
   \<and> parse_text sample_json ''{bad'' = None
   \<and> getItem (session_storage w_stored) (KEY_PREFIX E0 @ ''login'') = None
   \<and> getItem (session_storage (restore_local sample_json E0 ''login'' w_stored))
        (KEY_PREFIX E0 @ ''login'') = Some ''{bad''
   \<and> (\<exists>w'. restore2 sample_json E0 (Some ORCH) w_stored = Inr w'
          \<and> getItem (session_storage w') (KEY_PREFIX E0 @ ''login'') = Some ''{bad''
          \<and> map_of (store w') ''login'' = map_of (store w_stored) ''login'')"
proof -
  have h1: "permanent E0 = Some cfg0" by (simp add: E0_def)
  have h2: "''login'' \<in> set (localStorageKeys cfg0)" by code_simp
  have h3: "getItem (local_storage w_stored) (KEY_PREFIX E0 @ ''login'') = Some ''{bad''"
    by code_simp
  have h4: "''{bad'' \<noteq> ''undefined''" by simp
  have h5: "''login'' \<notin> fst ` set (idoEntries cfg0)" by code_simp
  then have h5': "Some ORCH = None \<or> ''login'' \<notin> fst ` set (idoEntries cfg0)" by simp
  have h6: "parse_text sample_json ''{bad'' = None" by code_simp
  have h7: "getItem (session_storage w_stored) (KEY_PREFIX E0 @ ''login'') = None" by code_simp
  note t = restore_mirrors_durable_text [OF h1 h2 h3 h4 h5', where J = sample_json]
  from t h1 h2 h3 h4 h5 h6 h7 show ?thesis by blast
qed

end
